theory Spec2Isabelle
  imports Main
begin

section \<open>Strings and numbers of the host language\<close>

text \<open>
  The engine is TypeScript. A string is modelled as a \<^typ>\<open>string\<close>, one \<^typ>\<open>char\<close> per
  code unit (code units below 256), so \<open>length\<close> is the \<open>.length\<close> of the source.
  Integral numbers are \<^typ>\<open>int\<close>; a number that may be \<open>NaN\<close> is an \<^typ>\<open>int option\<close>
  with \<open>None\<close> for \<open>NaN\<close>.
\<close>

definition is_digit :: "char \<Rightarrow> bool" where
  \<comment> \<open>the regular expression classes \<open>\d\<close> and \<open>[0-9]\<close>\<close>
  "is_digit c = (48 \<le> (of_char c :: nat) \<and> (of_char c :: nat) \<le> 57)"

definition is_upper_or_underscore :: "char \<Rightarrow> bool" where
  \<comment> \<open>the class \<open>[A-Z_]\<close>\<close>
  "is_upper_or_underscore c =
     ((65 \<le> (of_char c :: nat) \<and> (of_char c :: nat) \<le> 90) \<or> c = CHR ''_'')"

definition is_lower :: "char \<Rightarrow> bool" where
  \<comment> \<open>the class \<open>[a-z]\<close>\<close>
  "is_lower c = (97 \<le> (of_char c :: nat) \<and> (of_char c :: nat) \<le> 122)"

definition is_space :: "char \<Rightarrow> bool" where
  \<comment> \<open>the class \<open>\s\<close> and the characters \<open>trim\<close> strips, among the code units below 256:
      TAB, LF, VT, FF, CR, SPACE and NBSP\<close>
  "is_space c = ((of_char c :: nat) \<in> {9, 10, 11, 12, 13, 32, 160})"

definition trim :: "string \<Rightarrow> string" where
  "trim s = rev (dropWhile is_space (rev (dropWhile is_space s)))"

definition digit_val :: "char \<Rightarrow> int" where
  "digit_val c = int (of_char c) - 48"

definition parseInt10 :: "string \<Rightarrow> int" where
  \<comment> \<open>\<open>parseInt(s, 10)\<close> on a run of decimal digits\<close>
  "parseInt10 s = foldl (\<lambda>n c. 10 * n + digit_val c) 0 s"

fun string_of_nat :: "nat \<Rightarrow> string" where
  "string_of_nat n =
     (if n < 10 then [char_of (48 + n)]
      else string_of_nat (n div 10) @ [char_of (48 + n mod 10)])"

declare string_of_nat.simps [simp del]

definition String_int :: "int \<Rightarrow> string" where
  \<comment> \<open>\<open>String(n)\<close> for an integral number\<close>
  "String_int i = (if i < 0 then CHR ''-'' # string_of_nat (nat (- i)) else string_of_nat (nat i))"

definition String_num :: "int option \<Rightarrow> string" where
  \<comment> \<open>\<open>String(n)\<close> for an integral number or \<open>NaN\<close>\<close>
  "String_num n = (case n of None \<Rightarrow> ''NaN'' | Some i \<Rightarrow> String_int i)"

definition padStart2 :: "string \<Rightarrow> string" where
  \<comment> \<open>\<open>s.padStart(2, '0')\<close>\<close>
  "padStart2 s = replicate (2 - length s) (CHR ''0'') @ s"

definition strict_neq :: "int option \<Rightarrow> int option \<Rightarrow> bool" where
  \<comment> \<open>\<open>a !== b\<close> on numbers: \<open>NaN\<close> differs from everything, itself included\<close>
  "strict_neq a b = (case (a, b) of (Some x, Some y) \<Rightarrow> x \<noteq> y | _ \<Rightarrow> True)"

section \<open>The Date object of the host language\<close>

text \<open>
  The source computes with the built-in \<open>Date\<close>. Its methods are modelled after the
  abstract operations of ECMA-262 (section "Date Objects"): a time value is a number of
  milliseconds since 1970-01-01T00:00:00Z, the calendar is the proleptic Gregorian one,
  and \<open>TimeClip\<close> turns every time value beyond 8.64e15 milliseconds into \<open>NaN\<close>
  (an Invalid Date).
\<close>

datatype jsdate = TimeValue int | InvalidDate

definition msPerDay :: int where
  "msPerDay = 86400000"

definition Day :: "int \<Rightarrow> int" where
  "Day t = t div msPerDay"

definition TimeWithinDay :: "int \<Rightarrow> int" where
  "TimeWithinDay t = t mod msPerDay"

definition DaysInYear :: "int \<Rightarrow> int" where
  "DaysInYear y =
     (if y mod 4 \<noteq> 0 then 365
      else if y mod 100 \<noteq> 0 then 366
      else if y mod 400 \<noteq> 0 then 365
      else 366)"

definition DayFromYear :: "int \<Rightarrow> int" where
  "DayFromYear y =
     365 * (y - 1970) + (y - 1969) div 4 - (y - 1901) div 100 + (y - 1601) div 400"

definition YearFromDay :: "int \<Rightarrow> int" where
  \<comment> \<open>the largest \<open>y\<close> with \<open>DayFromYear y \<le> d\<close>, computed from an estimate that is off by
      one at most (lemma \<open>YearFromDay_bounds\<close>)\<close>
  "YearFromDay d =
     (let y = 1970 + (400 * d) div 146097 in
      if d < DayFromYear y then y - 1
      else if DayFromYear (y + 1) \<le> d then y + 1
      else y)"

definition YearFromTime :: "int \<Rightarrow> int" where
  "YearFromTime t = YearFromDay (Day t)"

definition InLeapYear :: "int \<Rightarrow> int" where
  "InLeapYear t = (if DaysInYear (YearFromTime t) = 366 then 1 else 0)"

definition DayWithinYear :: "int \<Rightarrow> int" where
  "DayWithinYear t = Day t - DayFromYear (YearFromTime t)"

definition MonthStart :: "int \<Rightarrow> int \<Rightarrow> int" where
  \<comment> \<open>the day within the year on which month \<open>m\<close> (0 to 11) starts; \<open>l\<close> is 1 in a leap year\<close>
  "MonthStart l m =
     (if m = 0 then 0 else if m = 1 then 31 else if m = 2 then 59 + l
      else if m = 3 then 90 + l else if m = 4 then 120 + l else if m = 5 then 151 + l
      else if m = 6 then 181 + l else if m = 7 then 212 + l else if m = 8 then 243 + l
      else if m = 9 then 273 + l else if m = 10 then 304 + l else 334 + l)"

definition MonthFromTime :: "int \<Rightarrow> int" where
  "MonthFromTime t =
     (let d = DayWithinYear t; l = InLeapYear t in
      if d < 31 then 0 else if d < 59 + l then 1 else if d < 90 + l then 2
      else if d < 120 + l then 3 else if d < 151 + l then 4 else if d < 181 + l then 5
      else if d < 212 + l then 6 else if d < 243 + l then 7 else if d < 273 + l then 8
      else if d < 304 + l then 9 else if d < 334 + l then 10 else 11)"

definition DateFromTime :: "int \<Rightarrow> int" where
  "DateFromTime t = DayWithinYear t - MonthStart (InLeapYear t) (MonthFromTime t) + 1"

definition MakeDay :: "int \<Rightarrow> int \<Rightarrow> int \<Rightarrow> int" where
  \<comment> \<open>the day number of the first day of month \<open>month mod 12\<close> of year
      \<open>year + month div 12\<close>, plus \<open>date - 1\<close>\<close>
  "MakeDay year month date =
     (let ym = year + month div 12; mn = month mod 12 in
      DayFromYear ym + MonthStart (if DaysInYear ym = 366 then 1 else 0) mn + date - 1)"

definition MakeDate :: "int \<Rightarrow> int \<Rightarrow> int" where
  "MakeDate day time = day * msPerDay + time"

definition TimeClip :: "int \<Rightarrow> jsdate" where
  "TimeClip time = (if \<bar>time\<bar> > 8640000000000000 then InvalidDate else TimeValue time)"

definition getUTCFullYear :: "jsdate \<Rightarrow> int option" where
  "getUTCFullYear d = (case d of InvalidDate \<Rightarrow> None | TimeValue t \<Rightarrow> Some (YearFromTime t))"

definition getUTCMonth :: "jsdate \<Rightarrow> int option" where
  "getUTCMonth d = (case d of InvalidDate \<Rightarrow> None | TimeValue t \<Rightarrow> Some (MonthFromTime t))"

definition getUTCDate :: "jsdate \<Rightarrow> int option" where
  "getUTCDate d = (case d of InvalidDate \<Rightarrow> None | TimeValue t \<Rightarrow> Some (DateFromTime t))"

definition isNaN_getTime :: "jsdate \<Rightarrow> bool" where
  \<comment> \<open>\<open>isNaN(date.getTime())\<close>\<close>
  "isNaN_getTime d = (d = InvalidDate)"

definition num_plus :: "int option \<Rightarrow> int \<Rightarrow> int option" where
  \<comment> \<open>\<open>a + b\<close> where \<open>a\<close> may be \<open>NaN\<close>\<close>
  "num_plus a b = (case a of None \<Rightarrow> None | Some x \<Rightarrow> Some (x + b))"

definition setUTCDate :: "jsdate \<Rightarrow> int option \<Rightarrow> jsdate" where
  "setUTCDate d date =
     (case d of
        InvalidDate \<Rightarrow> InvalidDate
      | TimeValue t \<Rightarrow>
          (case date of
             None \<Rightarrow> InvalidDate
           | Some dt \<Rightarrow>
               TimeClip (MakeDate (MakeDay (YearFromTime t) (MonthFromTime t) dt)
                                  (TimeWithinDay t))))"

definition setUTCMonth :: "jsdate \<Rightarrow> int option \<Rightarrow> jsdate" where
  \<comment> \<open>called with the month alone: the date stays \<open>DateFromTime t\<close>\<close>
  "setUTCMonth d month =
     (case d of
        InvalidDate \<Rightarrow> InvalidDate
      | TimeValue t \<Rightarrow>
          (case month of
             None \<Rightarrow> InvalidDate
           | Some m \<Rightarrow>
               TimeClip (MakeDate (MakeDay (YearFromTime t) m (DateFromTime t))
                                  (TimeWithinDay t))))"

definition setUTCFullYear :: "jsdate \<Rightarrow> int option \<Rightarrow> jsdate" where
  \<comment> \<open>called with the year alone; an Invalid Date is read as time value 0\<close>
  "setUTCFullYear d year =
     (let t = (case d of InvalidDate \<Rightarrow> 0 | TimeValue t \<Rightarrow> t) in
      case year of
        None \<Rightarrow> InvalidDate
      | Some y \<Rightarrow>
          TimeClip (MakeDate (MakeDay y (MonthFromTime t) (DateFromTime t))
                             (TimeWithinDay t)))"

section \<open>types.ts\<close>

datatype TimeUnit =
  U_day | U_days | U_week | U_weeks | U_month | U_months | U_year | U_years

datatype Operator = Plus | Minus

datatype ASTNode =
  VarRef string
| DateArithmetic ASTNode Operator int TimeUnit

datatype ValueType = T_date | T_number | T_string

text \<open>
  A \<open>TypedValue\<close>. The numbers a user variable can hold are floating-point values of
  the host; they stay abstract, as the type parameter \<open>'n\<close>. \<open>V_object\<close> is a value of type
  \<open>'string'\<close> that is not a string: a property the context object inherits from its
  prototype (a function, or the prototype itself), given by the text \<open>String\<close> makes of it.
\<close>

datatype 'n TypedValue =
  V_date jsdate
| V_number 'n
| V_string string
| V_object string

datatype ErrorCode =
  EXPRESSION_TOO_LONG | PARSE_ERROR | UNDEFINED_VARIABLE | TYPE_ERROR | EVALUATION_ERROR

datatype TokenType = VAR | OPERATOR | NUMBER | UNIT | EOF

text \<open>
  The messages of the errors, one constructor per template of the source, holding the
  values the template interpolates.
\<close>

datatype Message =
  Msg_expected TokenType TokenType        \<comment> \<open>\<open>Expected ${type}, got ${token.type}\<close>\<close>
| Msg_unexpected_tokens                   \<comment> \<open>\<open>Unexpected tokens after expression\<close>\<close>
| Msg_invalid_operator string             \<comment> \<open>\<open>Invalid operator '${opToken.value}'\<close>\<close>
| Msg_not_positive                        \<comment> \<open>\<open>Interval amount must be a positive integer\<close>\<close>
| Msg_exceeds_maximum int int             \<comment> \<open>\<open>Interval amount ${amount} exceeds maximum ${max}\<close>\<close>
| Msg_invalid_unit string                 \<comment> \<open>\<open>Invalid time unit '${unitToken.value}'. Must be one of: ...\<close>\<close>
| Msg_expected_variable                   \<comment> \<open>\<open>Expected variable name\<close>\<close>
| Msg_too_long int                        \<comment> \<open>\<open>Expression exceeds maximum length of ${max} characters\<close>\<close>
| Msg_unexpected_character char nat      \<comment> \<open>\<open>Unexpected character '${c}' at position ${pos}\<close>\<close>
| Msg_no_token                            \<comment> \<open>the TypeError of reading \<open>.type\<close> of \<open>undefined\<close>\<close>
| Msg_not_defined string                  \<comment> \<open>\<open>Variable '${name}' is not defined\<close>\<close>
| Msg_cannot_arithmetic ValueType         \<comment> \<open>\<open>Cannot perform date arithmetic on ${type} value\<close>\<close>

record ParseError =
  pe_code :: ErrorCode
  pe_message :: Message
  pe_token :: string
  pe_position :: "nat option"

text \<open>
  The \<open>token\<close> of an evaluation error is a text, or \<open>JSON.stringify(node)\<close> of a node.
\<close>

datatype ErrorToken = Token_text string | Token_json ASTNode

record EvaluationError =
  ee_code :: ErrorCode
  ee_message :: Message
  ee_token :: ErrorToken

text \<open>
  A \<open>VariableContext\<close> is modelled by its own properties, which are strings.
\<close>

type_synonym VariableContext = "string \<rightharpoonup> string"

text \<open>
  A system variable is a function of no argument that returns a \<open>Date\<close>; it is modelled
  by the date it returns when the resolver calls it.
\<close>

type_synonym SystemVariables = "string \<rightharpoonup> jsdate"

text \<open>
  What the source takes from its host and the model leaves open:
  \<^item> \<open>Number(s)\<close> of a string (\<open>None\<close> for \<open>NaN\<close>) and \<open>String(n)\<close> of such a number;
  \<^item> \<open>new Date(s)\<close> of a string that starts like a date-time;
  \<^item> the date \<open>getCurrentDate()\<close> returns;
  \<^item> \<open>parseInt(s, 10)\<close> of a run of digits whose value is beyond \<open>2^53\<close>, where the
    result is a rounded floating-point number: its integral value, or \<open>None\<close> for
    \<open>Infinity\<close>;
  \<^item> the properties a context object inherits from its prototype, which the operator
    \<open>in\<close> and the property access find like its own. An inherited value is a string, or
    else an object, given by the text \<open>String\<close> makes of it. The objects are taken to be
    like those \<open>Object.prototype\<close> holds, functions and the prototype object: the pattern
    of a date matches the text of none, and \<open>Number\<close> of each is \<open>NaN\<close>.
\<close>

datatype PropertyValue = StringValue string | ObjectValue string

record 'n Host =
  host_Number :: "string \<Rightarrow> 'n option"
  host_String :: "'n \<Rightarrow> string"
  host_Date :: "string \<Rightarrow> jsdate"
  host_getCurrentDate :: jsdate
  host_parseInt_beyond :: "string \<Rightarrow> int option"
  host_inherited :: "string \<rightharpoonup> PropertyValue"

section \<open>date-utils.ts\<close>

definition date_prefix :: "string \<Rightarrow> bool" where
  \<comment> \<open>the common start \<open>\d{4}-\d{2}-\d{2}\<close> of the two regular expressions\<close>
  "date_prefix s =
     (10 \<le> length s \<and> list_all (\<lambda>i. is_digit (s ! i)) [0, 1, 2, 3, 5, 6, 8, 9]
      \<and> s ! 4 = CHR ''-'' \<and> s ! 7 = CHR ''-'')"

definition isoDateRegex :: "string \<Rightarrow> bool" where
  \<comment> \<open>\<open>/^\d{4}-\d{2}-\d{2}$/.test(s)\<close>\<close>
  "isoDateRegex s = (date_prefix s \<and> length s = 10)"

definition isoDateTimeRegex :: "string \<Rightarrow> bool" where
  \<comment> \<open>\<open>/^\d{4}-\d{2}-\d{2}T/.test(s)\<close>\<close>
  "isoDateTimeRegex s = (date_prefix s \<and> 10 < length s \<and> s ! 10 = CHR ''T'')"

definition Date_utc_midnight :: "string \<Rightarrow> jsdate" where
  \<comment> \<open>\<open>new Date(s + 'T00:00:00.000Z')\<close> for \<open>s\<close> of the form \<open>YYYY-MM-DD\<close>: a month
      outside 01 to 12 or a day outside 01 to 31 gives an Invalid Date, a day beyond the
      month's length rolls into the next month\<close>
  "Date_utc_midnight s =
     (let y = parseInt10 (take 4 s);
          m = parseInt10 (take 2 (drop 5 s));
          d = parseInt10 (take 2 (drop 8 s))
      in if 1 \<le> m \<and> m \<le> 12 \<and> 1 \<le> d \<and> d \<le> 31
         then TimeClip (MakeDate (MakeDay y (m - 1) d) 0)
         else InvalidDate)"

definition formatDate :: "jsdate \<Rightarrow> string" where
  "formatDate date =
     (let year = getUTCFullYear date;
          month = padStart2 (String_num (num_plus (getUTCMonth date) 1));
          day = padStart2 (String_num (getUTCDate date))
      in String_num year @ ''-'' @ month @ ''-'' @ day)"

definition parseDate :: "(string \<Rightarrow> jsdate) \<Rightarrow> string \<Rightarrow> jsdate option" where
  \<comment> \<open>\<open>new_Date\<close> is the host's \<open>new Date(value)\<close>, used for date-time strings\<close>
  "parseDate new_Date v =
     (let plain =
        (if isoDateRegex v then
           (let date = Date_utc_midnight v in
            if \<not> isNaN_getTime date \<and> formatDate date = v then Some date else None)
         else None)
      in case plain of
           Some date \<Rightarrow> Some date
         | None \<Rightarrow>
             (if isoDateTimeRegex v then
                (let date = new_Date v in
                 if \<not> isNaN_getTime date then Some date else None)
              else None))"

definition addToDate :: "jsdate \<Rightarrow> int \<Rightarrow> TimeUnit \<Rightarrow> Operator \<Rightarrow> jsdate" where
  "addToDate date amount unit operator =
     (let result = date;
          multiplier = (if operator = Plus then 1 else - 1);
          actualAmount = amount * multiplier;
          add_days = setUTCDate result (num_plus (getUTCDate result) actualAmount);
          add_weeks = setUTCDate result (num_plus (getUTCDate result) (actualAmount * 7));
          add_months =
            (let originalDay = getUTCDate result;
                 result1 = setUTCMonth result (num_plus (getUTCMonth result) actualAmount)
             in if strict_neq (getUTCDate result1) originalDay
                then setUTCDate result1 (Some 0) else result1);
          add_years =
            (let originalDayYear = getUTCDate result;
                 result1 = setUTCFullYear result (num_plus (getUTCFullYear result) actualAmount)
             in if strict_neq (getUTCDate result1) originalDayYear
                then setUTCDate result1 (Some 0) else result1)
      in case unit of
           U_day \<Rightarrow> add_days | U_days \<Rightarrow> add_days
         | U_week \<Rightarrow> add_weeks | U_weeks \<Rightarrow> add_weeks
         | U_month \<Rightarrow> add_months | U_months \<Rightarrow> add_months
         | U_year \<Rightarrow> add_years | U_years \<Rightarrow> add_years)"

section \<open>tokenizer.ts\<close>

record Token =
  tok_type :: TokenType
  tok_value :: string
  tok_position :: nat

definition isValidTimeUnit :: "string \<Rightarrow> bool" where
  "isValidTimeUnit unit =
     (unit \<in> set [''day'', ''days'', ''week'', ''weeks'', ''month'', ''months'', ''year'', ''years''])"

definition isValidOperator :: "string \<Rightarrow> bool" where
  "isValidOperator op = (op = ''+'' \<or> op = ''-'')"

definition as_TimeUnit :: "string \<Rightarrow> TimeUnit" where
  \<comment> \<open>the cast \<open>unitToken.value as TimeUnit\<close>, made after \<open>isValidTimeUnit\<close>\<close>
  "as_TimeUnit s =
     (if s = ''day'' then U_day else if s = ''days'' then U_days
      else if s = ''week'' then U_week else if s = ''weeks'' then U_weeks
      else if s = ''month'' then U_month else if s = ''months'' then U_months
      else if s = ''year'' then U_year else U_years)"

definition as_Operator :: "string \<Rightarrow> Operator" where
  \<comment> \<open>the cast \<open>opToken.value as Operator\<close>, made after \<open>isValidOperator\<close>\<close>
  "as_Operator s = (if s = ''+'' then Plus else Minus)"

text \<open>
  The tokenizer's state is the rest of the trimmed input and the position reached.
  \<open>tokenize_loop\<close> is the loop of \<open>tokenize()\<close>: one character of white space is
  skipped per step, and \<open>readVariable\<close>, \<open>readNumber\<close> and \<open>readUnit\<close> take the longest
  run of their class. The thrown \<open>Error\<close> is the \<open>Inl\<close> result.
\<close>

function tokenize_loop :: "string \<Rightarrow> nat \<Rightarrow> Message + Token list" where
  "tokenize_loop [] pos = Inr [\<lparr>tok_type = EOF, tok_value = [], tok_position = pos\<rparr>]"
| "tokenize_loop (c # cs) pos =
     (if is_space c then tokenize_loop cs (pos + 1)
      else if is_upper_or_underscore c then
        (let v = c # takeWhile is_upper_or_underscore cs in
         case tokenize_loop (dropWhile is_upper_or_underscore cs) (pos + length v) of
           Inl e \<Rightarrow> Inl e
         | Inr ts \<Rightarrow> Inr (\<lparr>tok_type = VAR, tok_value = v, tok_position = pos\<rparr> # ts))
      else if isValidOperator [c] then
        (case tokenize_loop cs (pos + 1) of
           Inl e \<Rightarrow> Inl e
         | Inr ts \<Rightarrow> Inr (\<lparr>tok_type = OPERATOR, tok_value = [c], tok_position = pos\<rparr> # ts))
      else if is_digit c then
        (let v = c # takeWhile is_digit cs in
         case tokenize_loop (dropWhile is_digit cs) (pos + length v) of
           Inl e \<Rightarrow> Inl e
         | Inr ts \<Rightarrow> Inr (\<lparr>tok_type = NUMBER, tok_value = v, tok_position = pos\<rparr> # ts))
      else if is_lower c then
        (let v = c # takeWhile is_lower cs in
         case tokenize_loop (dropWhile is_lower cs) (pos + length v) of
           Inl e \<Rightarrow> Inl e
         | Inr ts \<Rightarrow> Inr (\<lparr>tok_type = UNIT, tok_value = v, tok_position = pos\<rparr> # ts))
      else Inl (Msg_unexpected_character c pos))"
  by pat_completeness auto
termination
  by (relation "measure (\<lambda>(cs, pos). length cs)")
     (auto simp: less_Suc_eq_le length_dropWhile_le)

definition tokenize :: "string \<Rightarrow> Message + Token list" where
  \<comment> \<open>\<open>new Tokenizer(input).tokenize()\<close>: the constructor trims the input\<close>
  "tokenize input = tokenize_loop (trim input) 0"

section \<open>parser.ts\<close>

text \<open>
  What the parser throws: a \<open>ParseError\<close> object made by \<open>this.error\<close>, or an \<open>Error\<close>
  of the host that carries a message and no \<open>code\<close>.
\<close>

datatype Thrown = Throw_ParseError ParseError | Throw_Error Message

text \<open>
  The parser's state, the array \<open>tokens\<close> with the index \<open>current\<close>, is modelled by the
  tokens from \<open>current\<close> on. \<open>currentToken\<close> of no token at all is \<open>undefined\<close>, and
  reading its \<open>type\<close> throws.
\<close>

definition advance :: "Token list \<Rightarrow> Token list" where
  "advance ts = (case ts of [] \<Rightarrow> [] | t # rest \<Rightarrow> if tok_type t \<noteq> EOF then rest else ts)"

definition parser_error :: "Message \<Rightarrow> Token \<Rightarrow> ParseError" where
  "parser_error msg t =
     \<lparr>pe_code = PARSE_ERROR, pe_message = msg, pe_token = tok_value t,
      pe_position = Some (tok_position t)\<rparr>"

definition expect :: "TokenType \<Rightarrow> Token list \<Rightarrow> Thrown + (Token \<times> Token list)" where
  "expect ty ts =
     (case ts of
        [] \<Rightarrow> Inl (Throw_Error Msg_no_token)
      | t # _ \<Rightarrow>
          if tok_type t \<noteq> ty
          then Inl (Throw_ParseError (parser_error (Msg_expected ty (tok_type t)) t))
          else Inr (t, advance ts))"

definition parsePrimary :: "Token list \<Rightarrow> Thrown + (ASTNode \<times> Token list)" where
  "parsePrimary ts =
     (case ts of
        [] \<Rightarrow> Inl (Throw_Error Msg_no_token)
      | t # _ \<Rightarrow>
          if tok_type t = VAR then Inr (VarRef (tok_value t), advance ts)
          else Inl (Throw_ParseError (parser_error Msg_expected_variable t)))"

definition parseInt_amount :: "('n, 'x) Host_scheme \<Rightarrow> string \<Rightarrow> int option" where
  \<comment> \<open>\<open>parseInt(numToken.value, 10)\<close> on the run of digits of a \<open>NUMBER\<close> token: exact up to
      \<open>2^53\<close>, as the host rounds it beyond; \<open>None\<close> is \<open>Infinity\<close>\<close>
  "parseInt_amount host s =
     (if parseInt10 s \<le> 9007199254740992 then Some (parseInt10 s)
      else host_parseInt_beyond host s)"

definition not_finite_or_not_positive :: "int option \<Rightarrow> bool" where
  \<comment> \<open>\<open>!Number.isFinite(amount) || amount <= 0\<close>\<close>
  "not_finite_or_not_positive amount = (case amount of None \<Rightarrow> True | Some a \<Rightarrow> a \<le> 0)"

function parseExpression_loop ::
  "('n, 'x) Host_scheme \<Rightarrow> int \<Rightarrow> ASTNode \<Rightarrow> Token list
     \<Rightarrow> Thrown + (ASTNode \<times> Token list)" where
  "parseExpression_loop host maxIntervalAmount node ts =
     (case ts of
        [] \<Rightarrow> Inl (Throw_Error Msg_no_token)
      | opToken # _ \<Rightarrow>
          if tok_type opToken \<noteq> OPERATOR then Inr (node, ts)
          else if \<not> isValidOperator (tok_value opToken)
          then Inl (Throw_ParseError
                      (parser_error (Msg_invalid_operator (tok_value opToken)) opToken))
          else
            (case expect NUMBER (advance ts) of
               Inl e \<Rightarrow> Inl e
             | Inr (numToken, ts1) \<Rightarrow>
                 (let amount = parseInt_amount host (tok_value numToken) in
                  if not_finite_or_not_positive amount
                  then Inl (Throw_ParseError (parser_error Msg_not_positive numToken))
                  else if the amount > maxIntervalAmount
                  then Inl (Throw_ParseError
                              (parser_error (Msg_exceeds_maximum (the amount) maxIntervalAmount)
                                 numToken))
                  else
                    (case expect UNIT ts1 of
                       Inl e \<Rightarrow> Inl e
                     | Inr (unitToken, ts2) \<Rightarrow>
                         if \<not> isValidTimeUnit (tok_value unitToken)
                         then Inl (Throw_ParseError
                                     (parser_error (Msg_invalid_unit (tok_value unitToken))
                                        unitToken))
                         else parseExpression_loop host maxIntervalAmount
                                (DateArithmetic node (as_Operator (tok_value opToken))
                                   (the amount) (as_TimeUnit (tok_value unitToken)))
                                ts2))))"
  by pat_completeness auto
termination
  by (relation "measure (\<lambda>(h, m, node, ts). length ts)")
     (auto simp: expect_def advance_def split: list.splits if_splits)

declare parseExpression_loop.simps [simp del]

definition parseExpression ::
  "('n, 'x) Host_scheme \<Rightarrow> int \<Rightarrow> Token list \<Rightarrow> Thrown + (ASTNode \<times> Token list)" where
  "parseExpression host maxIntervalAmount ts =
     (case parsePrimary ts of
        Inl e \<Rightarrow> Inl e
      | Inr (node, ts1) \<Rightarrow> parseExpression_loop host maxIntervalAmount node ts1)"

definition Parser_parse :: "('n, 'x) Host_scheme \<Rightarrow> int \<Rightarrow> Token list \<Rightarrow> Thrown + ASTNode" where
  \<comment> \<open>the method \<open>parse()\<close> of the class \<open>Parser\<close>\<close>
  "Parser_parse host maxIntervalAmount ts =
     (case parseExpression host maxIntervalAmount ts of
        Inl e \<Rightarrow> Inl e
      | Inr (expr, ts1) \<Rightarrow>
          (case ts1 of
             [] \<Rightarrow> Inl (Throw_Error Msg_no_token)
           | t # _ \<Rightarrow>
               if tok_type t \<noteq> EOF
               then Inl (Throw_ParseError (parser_error Msg_unexpected_tokens t))
               else Inr expr))"

definition caught :: "string \<Rightarrow> Thrown \<Rightarrow> ParseError" where
  \<comment> \<open>the \<open>catch\<close> of \<open>parse\<close>: an object with a \<open>code\<close> is returned as it is, anything else
      becomes a \<open>PARSE_ERROR\<close> on the whole expression\<close>
  "caught expression e =
     (case e of
        Throw_ParseError pe \<Rightarrow> pe
      | Throw_Error msg \<Rightarrow>
          \<lparr>pe_code = PARSE_ERROR, pe_message = msg, pe_token = expression, pe_position = None\<rparr>)"

definition parse ::
  "('n, 'x) Host_scheme \<Rightarrow> string \<Rightarrow> int \<Rightarrow> int \<Rightarrow> ParseError + ASTNode" where
  \<comment> \<open>the function \<open>parse(expression, options)\<close>, with the two limits of \<open>options\<close>\<close>
  "parse host expression maxExpressionLength maxIntervalAmount =
     (if int (length expression) > maxExpressionLength then
        Inl \<lparr>pe_code = EXPRESSION_TOO_LONG, pe_message = Msg_too_long maxExpressionLength,
             pe_token = expression, pe_position = None\<rparr>
      else
        (case tokenize expression of
           Inl msg \<Rightarrow> Inl (caught expression (Throw_Error msg))
         | Inr tokens \<Rightarrow>
             (case Parser_parse host maxIntervalAmount tokens of
                Inl e \<Rightarrow> Inl (caught expression e)
              | Inr ast \<Rightarrow> Inr ast)))"

definition default_maxExpressionLength :: int where
  "default_maxExpressionLength = 200"

definition default_maxIntervalAmount :: int where
  "default_maxIntervalAmount = 10000"

section \<open>variable-resolver.ts\<close>

definition DEFAULT_SYSTEM_VARIABLES :: "('n, 'x) Host_scheme \<Rightarrow> SystemVariables" where
  "DEFAULT_SYSTEM_VARIABLES host = [''DATE'' \<mapsto> host_getCurrentDate host]"

definition merged_systemVariables ::
  "('n, 'x) Host_scheme \<Rightarrow> SystemVariables \<Rightarrow> SystemVariables" where
  \<comment> \<open>the constructor's \<open>{ ...DEFAULT_SYSTEM_VARIABLES, ...systemVariables }\<close>\<close>
  "merged_systemVariables host systemVariables = DEFAULT_SYSTEM_VARIABLES host ++ systemVariables"

text \<open>
  The properties every object literal inherits from \<open>Object.prototype\<close>, with the texts of
  their values.
\<close>

definition Object_prototype :: "string \<rightharpoonup> PropertyValue" where
  "Object_prototype =
     map_of
       (map (\<lambda>(name, object_text). (name, ObjectValue object_text))
       [(''constructor'', ''function Object() { [native code] }''),
        (''__defineGetter__'', ''function __defineGetter__() { [native code] }''),
        (''__defineSetter__'', ''function __defineSetter__() { [native code] }''),
        (''hasOwnProperty'', ''function hasOwnProperty() { [native code] }''),
        (''__lookupGetter__'', ''function __lookupGetter__() { [native code] }''),
        (''__lookupSetter__'', ''function __lookupSetter__() { [native code] }''),
        (''isPrototypeOf'', ''function isPrototypeOf() { [native code] }''),
        (''propertyIsEnumerable'', ''function propertyIsEnumerable() { [native code] }''),
        (''toString'', ''function toString() { [native code] }''),
        (''valueOf'', ''function valueOf() { [native code] }''),
        (''__proto__'', ''[object Object]''),
        (''toLocaleString'', ''function toLocaleString() { [native code] }'')])"

definition name_in :: "(string \<rightharpoonup> 'p) \<Rightarrow> (string \<rightharpoonup> 'v) \<Rightarrow> string \<Rightarrow> bool" where
  \<comment> \<open>\<open>name in object\<close>: an own property of the object, or one of its prototype\<close>
  "name_in prototype object name = (name \<in> dom object \<or> name \<in> dom prototype)"

definition get_property ::
  "('n, 'x) Host_scheme \<Rightarrow> VariableContext \<Rightarrow> string \<Rightarrow> PropertyValue option" where
  \<comment> \<open>\<open>userContext[name]\<close>: the own property, a string, or else the inherited one;
      \<open>None\<close> is \<open>undefined\<close>\<close>
  "get_property host userContext name =
     (case userContext name of
        Some v \<Rightarrow> Some (StringValue v)
      | None \<Rightarrow> host_inherited host name)"

definition resolveUserVariable ::
  "('n, 'x) Host_scheme \<Rightarrow> VariableContext \<Rightarrow> string \<Rightarrow> 'n TypedValue option" where
  \<comment> \<open>called for a name \<open>in\<close> the user context only\<close>
  "resolveUserVariable host userContext name =
     (case get_property host userContext name of
        None \<Rightarrow> None
      | Some (ObjectValue object_text) \<Rightarrow> Some (V_object object_text)
      | Some (StringValue v) \<Rightarrow>
          (case parseDate (host_Date host) v of
             Some date \<Rightarrow> Some (V_date date)
           | None \<Rightarrow>
               (case host_Number host v of
                  Some num \<Rightarrow> if trim v \<noteq> [] then Some (V_number num) else Some (V_string v)
                | None \<Rightarrow> Some (V_string v))))"

definition resolveSystemVariable :: "SystemVariables \<Rightarrow> string \<Rightarrow> 'n TypedValue option" where
  \<comment> \<open>the argument is the merged mapping of the resolver\<close>
  "resolveSystemVariable sysvars name =
     (if name = ''DATE'' then
        (case sysvars ''DATE'' of Some date \<Rightarrow> Some (V_date date) | None \<Rightarrow> None)
      else None)"

definition resolve ::
  "('n, 'x) Host_scheme \<Rightarrow> VariableContext \<Rightarrow> SystemVariables \<Rightarrow> string
     \<Rightarrow> 'n TypedValue option" where
  \<comment> \<open>\<open>new VariableResolver(userContext, systemVariables).resolve(name)\<close>\<close>
  "resolve host userContext systemVariables name =
     (let sysvars = merged_systemVariables host systemVariables in
      if name_in (host_inherited host) userContext name
      then resolveUserVariable host userContext name
      else if name_in Object_prototype sysvars name then resolveSystemVariable sysvars name
      else None)"

section \<open>evaluator.ts\<close>

definition evaluation_error :: "ErrorCode \<Rightarrow> Message \<Rightarrow> ErrorToken \<Rightarrow> EvaluationError" where
  "evaluation_error c msg t = \<lparr>ee_code = c, ee_message = msg, ee_token = t\<rparr>"

definition value_type :: "'n TypedValue \<Rightarrow> ValueType" where
  "value_type v =
     (case v of
        V_date _ \<Rightarrow> T_date | V_number _ \<Rightarrow> T_number | V_string _ \<Rightarrow> T_string
      | V_object _ \<Rightarrow> T_string)"

fun Evaluator_evaluate ::
  "('n, 'x) Host_scheme \<Rightarrow> VariableContext \<Rightarrow> SystemVariables \<Rightarrow> ASTNode
     \<Rightarrow> EvaluationError + 'n TypedValue" where
  "Evaluator_evaluate host ctx sys (VarRef name) =
     (case resolve host ctx sys name of
        None \<Rightarrow> Inl (evaluation_error UNDEFINED_VARIABLE (Msg_not_defined name) (Token_text name))
      | Some v \<Rightarrow> Inr v)"
| "Evaluator_evaluate host ctx sys (DateArithmetic base operator amount unit) =
     (case Evaluator_evaluate host ctx sys base of
        Inl e \<Rightarrow> Inl e
      | Inr baseValue \<Rightarrow>
          (case baseValue of
             V_date d \<Rightarrow> Inr (V_date (addToDate d amount unit operator))
           | _ \<Rightarrow>
               Inl (evaluation_error TYPE_ERROR (Msg_cannot_arithmetic (value_type baseValue))
                      (Token_json (DateArithmetic base operator amount unit)))))"

text \<open>
  The value \<open>evaluate\<close> returns for a \<open>V_object\<close> is the object itself; the model gives its
  text, which is what \<open>replace\<close> puts into the output of \<open>processText\<close>.
\<close>

definition evaluate ::
  "('n, 'x) Host_scheme \<Rightarrow> ASTNode \<Rightarrow> VariableContext \<Rightarrow> SystemVariables
     \<Rightarrow> EvaluationError + string" where
  "evaluate host ast ctx sys =
     (case Evaluator_evaluate host ctx sys ast of
        Inl e \<Rightarrow> Inl e
      | Inr result \<Rightarrow>
          Inr (case result of
                 V_date d \<Rightarrow> formatDate d
               | V_number n \<Rightarrow> host_String host n
               | V_string s \<Rightarrow> s
               | V_object object_text \<Rightarrow> object_text))"

text \<open>
  The variable an expression refers to: the base of its chain of date arithmetic.
\<close>

fun variable_of :: "ASTNode \<Rightarrow> string" where
  "variable_of (VarRef name) = name"
| "variable_of (DateArithmetic base operator amount unit) = variable_of base"

section \<open>engine.ts\<close>

record ExpressionEngineOptions =
  maxExpressionLength :: int
  maxIntervalAmount :: int
  systemVariables :: SystemVariables

definition default_options :: ExpressionEngineOptions where
  \<comment> \<open>the options of \<open>new ExpressionEngine()\<close>\<close>
  "default_options =
     \<lparr>maxExpressionLength = 200, maxIntervalAmount = 10000, systemVariables = Map.empty\<rparr>"

text \<open>
  The regular expression \<open>/\{\{([^}]+)\}\}/\<close> tried at the start of a text: two opening
  braces, the longest run of characters other than \<open>}\<close>, which must not be empty, and two
  closing braces. A shorter run cannot match, as the character after it is not \<open>}\<close>.
  The result is the match, its group and the text after the match.
\<close>

definition match_token :: "string \<Rightarrow> (string \<times> string \<times> string) option" where
  "match_token s =
     (if take 2 s = ''{{'' then
        (let expression = takeWhile (\<lambda>c. c \<noteq> CHR ''}'') (drop 2 s);
             after = dropWhile (\<lambda>c. c \<noteq> CHR ''}'') (drop 2 s)
         in if expression \<noteq> [] \<and> take 2 after = ''}}''
            then Some (''{{'' @ expression @ ''}}'', expression, drop 2 after)
            else None)
      else None)"

lemma match_token_shorter:
  assumes "match_token s = Some (m, e, rest)"
  shows "length rest < length s"
proof -
  let ?after = "dropWhile (\<lambda>c. c \<noteq> CHR ''}'') (drop 2 s)"
  from assms have two: "take 2 s = ''{{''" and rest: "rest = drop 2 ?after"
    by (auto simp: match_token_def Let_def split: if_splits)
  from two have "length (take 2 s) = 2" by simp
  then have "2 \<le> length s" by simp
  moreover have "length ?after \<le> length (drop 2 s)" by (rule length_dropWhile_le)
  ultimately show ?thesis using rest by simp
qed

text \<open>
  \<open>text.replace(tokenRegex, callback)\<close> with the global flag: the matches are looked for
  from left to right, the next one after the end of the last. The callback of the source
  appends to the array \<open>errors\<close>; here it returns the errors it appends.
\<close>

function replace_tokens ::
  "(string \<Rightarrow> string \<Rightarrow> string \<times> 'e list) \<Rightarrow> string \<Rightarrow> string \<times> 'e list" where
  "replace_tokens f [] = ([], [])"
| "replace_tokens f (c # cs) =
     (case match_token (c # cs) of
        Some (m, expression, rest) \<Rightarrow>
          (let (r, es) = f m expression; (t, es') = replace_tokens f rest
           in (r @ t, es @ es'))
      | None \<Rightarrow> (let (t, es) = replace_tokens f cs in (c # t, es)))"
  by pat_completeness auto
termination
  by (relation "measure (\<lambda>(f, s). length s)") (auto dest: match_token_shorter)

definition processText_callback ::
  "('n, 'x) Host_scheme \<Rightarrow> ExpressionEngineOptions \<Rightarrow> VariableContext \<Rightarrow> string \<Rightarrow> string
     \<Rightarrow> string \<times> EvaluationError list" where
  "processText_callback host options ctx m expression =
     (let trimmedExpr = trim expression in
      case parse host trimmedExpr (maxExpressionLength options) (maxIntervalAmount options) of
        Inl err \<Rightarrow>
          (m, [\<lparr>ee_code = pe_code err, ee_message = pe_message err, ee_token = Token_text m\<rparr>])
      | Inr ast \<Rightarrow>
          (case evaluate host ast ctx (systemVariables options) of
             Inl err \<Rightarrow> (m, [err])
           | Inr v \<Rightarrow> (v, [])))"

definition processText ::
  "('n, 'x) Host_scheme \<Rightarrow> ExpressionEngineOptions \<Rightarrow> string \<Rightarrow> VariableContext
     \<Rightarrow> string \<times> EvaluationError list" where
  \<comment> \<open>the result is the pair of \<open>text\<close> and \<open>errors\<close>\<close>
  "processText host options txt ctx = replace_tokens (processText_callback host options ctx) txt"

function extractExpressions :: "string \<Rightarrow> string list" where
  "extractExpressions [] = []"
| "extractExpressions (c # cs) =
     (case match_token (c # cs) of
        Some (m, expression, rest) \<Rightarrow> m # extractExpressions rest
      | None \<Rightarrow> extractExpressions cs)"
  by pat_completeness auto
termination
  by (relation "measure length") (auto dest: match_token_shorter)

text \<open>
  Rounding an integer beyond \<open>2^53\<close> to the nearest floating-point number of 53 bits, ties
  to even; \<open>None\<close> is \<open>Infinity\<close>.
\<close>

function halvings :: "int \<Rightarrow> nat" where
  "halvings n = (if n < 9007199254740992 then 0 else Suc (halvings (n div 2)))"
  by pat_completeness auto
termination
  by (relation "measure nat") auto

declare halvings.simps [simp del]

definition round_to_double :: "int \<Rightarrow> int option" where
  "round_to_double n =
     (let e = halvings n; q = n div 2 ^ e; r = n mod 2 ^ e;
          m = (if 2 * r > 2 ^ e \<or> (2 * r = 2 ^ e \<and> odd q) then q + 1 else q) * 2 ^ e
      in if m \<ge> 2 ^ 1024 then None else Some m)"

text \<open>
  A host for the examples: its numbers are the integers, a string is a number when it is
  a run of digits, no date-time string is accepted, the current date is 1970-01-01, and
  the context objects are object literals.
\<close>

definition example_host :: "int Host" where
  "example_host =
     \<lparr>host_Number = (\<lambda>s. if s \<noteq> [] \<and> list_all is_digit s then Some (parseInt10 s) else None),
      host_String = String_int,
      host_Date = (\<lambda>s. InvalidDate),
      host_getCurrentDate = TimeValue 0,
      host_parseInt_beyond = (\<lambda>s. round_to_double (parseInt10 s)),
      host_inherited = Object_prototype\<rparr>"

text \<open>
  The length of month \<open>m\<close> (0 to 11) of year \<open>y\<close>. The source has no such function: its
  clamp sets the date to 0 of the following month. The theorems on \<open>addToDate\<close> are stated
  with it.
\<close>

definition DaysInMonth :: "int \<Rightarrow> int \<Rightarrow> int" where
  "DaysInMonth y m =
     (if m = 1 then (if DaysInYear y = 366 then 29 else 28)
      else if m = 3 \<or> m = 5 \<or> m = 8 \<or> m = 10 then 30 else 31)"

section \<open>Notions for the statements on the parser and the engine\<close>

text \<open>
  The interval amounts of an expression, from the innermost to the outermost.
\<close>

fun amounts :: "ASTNode \<Rightarrow> int list" where
  "amounts (VarRef name) = []"
| "amounts (DateArithmetic base operator amount unit) = amounts base @ [amount]"

text \<open>
  The characters the tokenizer accepts.
\<close>

definition token_char :: "char \<Rightarrow> bool" where
  "token_char c =
     (is_space c \<or> is_upper_or_underscore c \<or> isValidOperator [c] \<or> is_digit c \<or> is_lower c)"

text \<open>
  A list of tokens as the tokenizer makes it: \<open>EOF\<close> is its last token and no other.
\<close>

definition ends_with_EOF :: "Token list \<Rightarrow> bool" where
  "ends_with_EOF ts =
     (ts \<noteq> [] \<and> tok_type (last ts) = EOF \<and> list_all (\<lambda>t. tok_type t \<noteq> EOF) (butlast ts))"

text \<open>
  The token at index \<open>i\<close>, an operator, starts a well-formed interval: a number whose
  amount is finite, positive and at most the maximum, and a unit of a known spelling.
\<close>

definition interval_at :: "('n, 'x) Host_scheme \<Rightarrow> int \<Rightarrow> Token list \<Rightarrow> nat \<Rightarrow> bool" where
  "interval_at host mx ts i =
     (case drop i ts of
        opToken # numToken # unitToken # _ \<Rightarrow>
          tok_type numToken = NUMBER \<and>
          (case parseInt_amount host (tok_value numToken) of
             None \<Rightarrow> False
           | Some a \<Rightarrow> 0 < a \<and> a \<le> mx) \<and>
          tok_type unitToken = UNIT \<and> isValidTimeUnit (tok_value unitToken)
      | _ \<Rightarrow> False)"

text \<open>
  The defects of the interval after the operator at index \<open>i\<close>: an amount of zero; no
  number after the operator (so for \<open>+ -5 days\<close>, where a second operator follows, and for
  \<open>+ days\<close>); no unit after the number; a unit of an unknown spelling; an amount beyond the
  maximum (\<open>Infinity\<close> is beyond every maximum).
\<close>

definition zero_amount :: "Token list \<Rightarrow> nat \<Rightarrow> bool" where
  "zero_amount ts i =
     (case drop (Suc i) ts of
        n # _ \<Rightarrow> tok_type n = NUMBER \<and> parseInt10 (tok_value n) = 0
      | [] \<Rightarrow> False)"

definition not_numeric :: "Token list \<Rightarrow> nat \<Rightarrow> bool" where
  "not_numeric ts i = (case drop (Suc i) ts of n # _ \<Rightarrow> tok_type n \<noteq> NUMBER | [] \<Rightarrow> True)"

definition missing_unit :: "Token list \<Rightarrow> nat \<Rightarrow> bool" where
  "missing_unit ts i =
     (case drop (Suc i) ts of
        n # u # _ \<Rightarrow> tok_type n = NUMBER \<and> tok_type u \<noteq> UNIT
      | [n] \<Rightarrow> tok_type n = NUMBER
      | [] \<Rightarrow> False)"

definition unknown_unit :: "Token list \<Rightarrow> nat \<Rightarrow> bool" where
  "unknown_unit ts i =
     (case drop (Suc i) ts of
        n # u # _ \<Rightarrow> tok_type n = NUMBER \<and> tok_type u = UNIT \<and> \<not> isValidTimeUnit (tok_value u)
      | _ \<Rightarrow> False)"

definition amount_exceeds :: "('n, 'x) Host_scheme \<Rightarrow> int \<Rightarrow> Token list \<Rightarrow> nat \<Rightarrow> bool" where
  "amount_exceeds host mx ts i =
     (case drop (Suc i) ts of
        n # _ \<Rightarrow>
          tok_type n = NUMBER \<and>
          (case parseInt_amount host (tok_value n) of None \<Rightarrow> True | Some a \<Rightarrow> mx < a)
      | [] \<Rightarrow> False)"


text \<open>
  How the regular expression of \<open>processText\<close> and \<open>extractExpressions\<close> cuts a text, from
  left to right: into the occurrences it matches, each with its group, and the
  characters between them.
\<close>

datatype Segment = Literal char | Occurrence string string

function segments :: "string \<Rightarrow> Segment list" where
  "segments [] = []"
| "segments (c # cs) =
     (case match_token (c # cs) of
        Some (m, expression, rest) \<Rightarrow> Occurrence m expression # segments rest
      | None \<Rightarrow> Literal c # segments cs)"
  by pat_completeness auto
termination
  by (relation "measure length") (auto dest: match_token_shorter)

declare segments.simps [simp del]

definition segment_text :: "Segment \<Rightarrow> string" where
  "segment_text seg = (case seg of Literal c \<Rightarrow> [c] | Occurrence m expression \<Rightarrow> m)"

definition occurrences :: "string \<Rightarrow> string list" where
  \<comment> \<open>the matches, in their order\<close>
  "occurrences txt =
     concat (map (\<lambda>seg. case seg of Literal c \<Rightarrow> [] | Occurrence m expression \<Rightarrow> [m])
               (segments txt))"

text \<open>
  What \<open>processText\<close> makes of a segment: a character stays, an occurrence goes through
  the callback.
\<close>

definition process_segment ::
  "('n, 'x) Host_scheme \<Rightarrow> ExpressionEngineOptions \<Rightarrow> VariableContext \<Rightarrow> Segment
     \<Rightarrow> string \<times> EvaluationError list" where
  "process_segment host options ctx seg =
     (case seg of
        Literal c \<Rightarrow> ([c], [])
      | Occurrence m expression \<Rightarrow> processText_callback host options ctx m expression)"

section \<open>The calendar of the Date object\<close>

lemma int_div_bounds:
  fixes x k :: int
  assumes "0 < k"
  shows "k * (x div k) \<le> x" and "x < k * (x div k) + k"
proof -
  have "x = k * (x div k) + x mod k" by simp
  moreover have "0 \<le> x mod k" "x mod k < k" using assms by simp_all
  ultimately show "k * (x div k) \<le> x" and "x < k * (x div k) + k" by linarith+
qed

lemma div_step:
  fixes x k :: int
  assumes "0 < k"
  shows "(x + 1) div k = x div k + (if k dvd (x + 1) then 1 else 0)"
proof -
  define q where "q = x div k"
  define r where "r = x mod k"
  have x: "x = k * q + r" by (simp add: q_def r_def)
  have r: "0 \<le> r" "r < k" using assms by (simp_all add: r_def)
  show ?thesis
  proof (cases "r = k - 1")
    case True
    have eq: "x + 1 = k * (q + 1) + 0"
      using True x by (simp add: algebra_simps)
    have "(x + 1) div k = q + 1"
      using eq _ assms by (rule int_div_pos_eq) simp
    moreover have "(x + 1) mod k = 0"
      using eq _ assms by (rule int_mod_pos_eq) simp
    ultimately show ?thesis by (simp add: q_def dvd_eq_mod_eq_0)
  next
    case False
    have eq: "x + 1 = k * q + (r + 1)" using x by simp
    have lt: "r + 1 < k" using False r by linarith
    have d: "(x + 1) div k = q"
      using eq _ lt by (rule int_div_pos_eq) (use r in simp)
    have m: "(x + 1) mod k = r + 1"
      using eq _ lt by (rule int_mod_pos_eq) (use r in simp)
    have "\<not> k dvd (x + 1)"
      using m r by (simp add: dvd_eq_mod_eq_0)
    with d show ?thesis by (simp add: q_def)
  qed
qed

lemma dvd_shift:
  fixes y :: int
  shows "4 dvd (y - 1969 + 1) \<longleftrightarrow> 4 dvd y"
    and "100 dvd (y - 1901 + 1) \<longleftrightarrow> 100 dvd y"
    and "400 dvd (y - 1601 + 1) \<longleftrightarrow> 400 dvd y"
proof -
  have a: "y - 1969 + 1 = y - 4 * 492" "y - 1901 + 1 = y - 100 * 19" "y - 1601 + 1 = y - 400 * 4"
    by simp_all
  show "4 dvd (y - 1969 + 1) \<longleftrightarrow> 4 dvd y"
    unfolding a(1) by (rule dvd_diff_left_iff) (rule dvd_triv_left)
  show "100 dvd (y - 1901 + 1) \<longleftrightarrow> 100 dvd y"
    unfolding a(2) by (rule dvd_diff_left_iff) (rule dvd_triv_left)
  show "400 dvd (y - 1601 + 1) \<longleftrightarrow> 400 dvd y"
    unfolding a(3) by (rule dvd_diff_left_iff) (rule dvd_triv_left)
qed

lemma leap_dvd:
  fixes y :: int
  shows "DaysInYear y = 365 + (if 4 dvd y then 1 else 0) - (if 100 dvd y then 1 else 0)
            + (if 400 dvd y then 1 else 0)"
proof -
  have "100 dvd y \<Longrightarrow> 4 dvd y" by (rule dvd_trans [of 4 100 y]) simp_all
  moreover have "400 dvd y \<Longrightarrow> 100 dvd y" by (rule dvd_trans [of 100 400 y]) simp_all
  ultimately show ?thesis
    by (auto simp: DaysInYear_def dvd_eq_mod_eq_0 [symmetric])
qed

lemma DayFromYear_Suc: "DayFromYear (y + 1) = DayFromYear y + DaysInYear y"
proof -
  have a: "(y + 1 - 1969) div 4 = (y - 1969) div 4 + (if 4 dvd y then 1 else 0)"
    using div_step [of 4 "y - 1969"] by (simp only: dvd_shift) (simp add: algebra_simps)
  have b: "(y + 1 - 1901) div 100 = (y - 1901) div 100 + (if 100 dvd y then 1 else 0)"
    using div_step [of 100 "y - 1901"] by (simp only: dvd_shift) (simp add: algebra_simps)
  have c: "(y + 1 - 1601) div 400 = (y - 1601) div 400 + (if 400 dvd y then 1 else 0)"
    using div_step [of 400 "y - 1601"] by (simp only: dvd_shift) (simp add: algebra_simps)
  show ?thesis
    unfolding DayFromYear_def leap_dvd a b c by simp
qed

lemma DayFromYear_bounds:
  "146097 * y - 287811890 < 400 * DayFromYear y"
  "400 * DayFromYear y < 146097 * y - 287810290"
proof -
  define a where "a = (y - 1969) div 4"
  define b where "b = (y - 1901) div 100"
  define c where "c = (y - 1601) div 400"
  have a: "4 * a \<le> y - 1969" "y - 1969 < 4 * a + 4"
    unfolding a_def by (rule int_div_bounds; simp)+
  have b: "100 * b \<le> y - 1901" "y - 1901 < 100 * b + 100"
    unfolding b_def by (rule int_div_bounds; simp)+
  have c: "400 * c \<le> y - 1601" "y - 1601 < 400 * c + 400"
    unfolding c_def by (rule int_div_bounds; simp)+
  have eq: "400 * DayFromYear y = 146000 * y - 287620000 + 400 * a - 400 * b + 400 * c"
    by (simp add: DayFromYear_def a_def b_def c_def)
  show "146097 * y - 287811890 < 400 * DayFromYear y"
    unfolding eq using a b c by linarith
  show "400 * DayFromYear y < 146097 * y - 287810290"
    unfolding eq using a b c by linarith
qed

lemma DayFromYear_less: "y < y' \<Longrightarrow> DayFromYear y < DayFromYear y'"
  using DayFromYear_bounds(2) [of y] DayFromYear_bounds(1) [of y'] by linarith

lemma DayFromYear_le: "y \<le> y' \<Longrightarrow> DayFromYear y \<le> DayFromYear y'"
  using DayFromYear_less [of y y'] by (cases "y = y'") simp_all

lemma YearFromDay_bounds:
  "DayFromYear (YearFromDay d) \<le> d" "d < DayFromYear (YearFromDay d + 1)"
proof -
  define q where "q = (400 * d) div 146097"
  define y0 where "y0 = 1970 + q"
  define y1 where "y1 = y0 - 1"
  define y2 where "y2 = y0 + 1 + 1"
  have q: "146097 * q \<le> 400 * d" "400 * d < 146097 * q + 146097"
    unfolding q_def by (rule int_div_bounds; simp)+
  have lo: "DayFromYear y1 \<le> d"
    using DayFromYear_bounds(2) [of y1] q y0_def y1_def by linarith
  have hi: "d < DayFromYear y2"
    using DayFromYear_bounds(1) [of y2] q y0_def y2_def by linarith
  have y: "YearFromDay d =
      (if d < DayFromYear y0 then y0 - 1 else if DayFromYear (y0 + 1) \<le> d then y0 + 1 else y0)"
    by (simp add: YearFromDay_def Let_def q_def y0_def)
  show "DayFromYear (YearFromDay d) \<le> d"
    using lo by (simp add: y y1_def)
  show "d < DayFromYear (YearFromDay d + 1)"
    using hi by (simp add: y y2_def)
qed

lemma YearFromDay_unique:
  assumes "DayFromYear y \<le> d" "d < DayFromYear (y + 1)"
  shows "YearFromDay d = y"
proof (rule ccontr)
  assume ne: "YearFromDay d \<noteq> y"
  show False
  proof (cases "YearFromDay d < y")
    case True
    then have "DayFromYear (YearFromDay d + 1) \<le> DayFromYear y"
      by (intro DayFromYear_le) simp
    with assms(1) YearFromDay_bounds(2) [of d] show False by linarith
  next
    case False
    with ne have "y + 1 \<le> YearFromDay d" by simp
    then have "DayFromYear (y + 1) \<le> DayFromYear (YearFromDay d)"
      by (rule DayFromYear_le)
    with assms(2) YearFromDay_bounds(1) [of d] show False by linarith
  qed
qed

lemma TimeWithinDay_range: "0 \<le> TimeWithinDay t" "TimeWithinDay t < msPerDay"
  by (simp_all add: TimeWithinDay_def msPerDay_def)

lemma MakeDate_Day: "MakeDate (Day t) (TimeWithinDay t) = t"
  by (simp add: MakeDate_def Day_def TimeWithinDay_def)

lemma Day_MakeDate:
  assumes "0 \<le> tw" "tw < msPerDay"
  shows "Day (MakeDate D tw) = D" and "TimeWithinDay (MakeDate D tw) = tw"
proof -
  have eq: "MakeDate D tw = msPerDay * D + tw" by (simp add: MakeDate_def)
  show "Day (MakeDate D tw) = D"
    unfolding Day_def using eq assms by (rule int_div_pos_eq)
  show "TimeWithinDay (MakeDate D tw) = tw"
    unfolding TimeWithinDay_def using eq assms by (rule int_mod_pos_eq)
qed

lemma DaysInYear_cases: "DaysInYear y = 365 \<or> DaysInYear y = 366"
  by (simp add: DaysInYear_def)

lemma DayWithinYear_range:
  "0 \<le> DayWithinYear t" "DayWithinYear t < DaysInYear (YearFromTime t)"
  using YearFromDay_bounds [of "Day t"] DayFromYear_Suc [of "YearFromDay (Day t)"]
  by (simp_all add: DayWithinYear_def YearFromTime_def)

lemma fields_range:
  "0 \<le> MonthFromTime t" "MonthFromTime t \<le> 11" "1 \<le> DateFromTime t"
  "DateFromTime t \<le> DaysInMonth (YearFromTime t) (MonthFromTime t)"
proof -
  define d where "d = DayWithinYear t"
  define l :: int where "l = (if DaysInYear (YearFromTime t) = 366 then 1 else 0)"
  have d: "0 \<le> d" "d < 365 + l"
    using DayWithinYear_range [of t] DaysInYear_cases [of "YearFromTime t"]
    by (auto simp: d_def l_def)
  have l: "l = 0 \<or> l = 1" by (simp add: l_def)
  have m: "MonthFromTime t =
      (if d < 31 then 0 else if d < 59 + l then 1 else if d < 90 + l then 2
      else if d < 120 + l then 3 else if d < 151 + l then 4 else if d < 181 + l then 5
      else if d < 212 + l then 6 else if d < 243 + l then 7 else if d < 273 + l then 8
      else if d < 304 + l then 9 else if d < 334 + l then 10 else 11)"
    by (simp add: MonthFromTime_def Let_def d_def l_def InLeapYear_def)
  show "0 \<le> MonthFromTime t" "MonthFromTime t \<le> 11"
    unfolding m by simp_all
  have dt: "DateFromTime t = d - MonthStart l (MonthFromTime t) + 1"
    by (simp add: DateFromTime_def d_def l_def InLeapYear_def)
  have dim: "DaysInMonth (YearFromTime t) m' =
      (if m' = 1 then 28 + l else if m' = 3 \<or> m' = 5 \<or> m' = 8 \<or> m' = 10 then 30 else 31)" for m'
    by (simp add: DaysInMonth_def l_def)
  show "1 \<le> DateFromTime t"
    unfolding dt m using d l by (auto simp: MonthStart_def)
  show "DateFromTime t \<le> DaysInMonth (YearFromTime t) (MonthFromTime t)"
    unfolding dt dim unfolding m using d l by (auto simp: MonthStart_def)
qed

lemma MakeDay_fields:
  "MakeDay (YearFromTime t) (MonthFromTime t) dt = Day t - DateFromTime t + dt"
proof -
  have m: "MonthFromTime t div 12 = 0" "MonthFromTime t mod 12 = MonthFromTime t"
    using fields_range(1,2) [of t] by simp_all
  show ?thesis
    by (simp add: MakeDay_def Let_def m DateFromTime_def DayWithinYear_def InLeapYear_def)
qed

lemma month_cases:
  fixes m :: int
  assumes "0 \<le> m" "m \<le> 11"
  shows "m = 0 \<or> m = 1 \<or> m = 2 \<or> m = 3 \<or> m = 4 \<or> m = 5 \<or> m = 6 \<or> m = 7 \<or> m = 8
         \<or> m = 9 \<or> m = 10 \<or> m = 11"
  using assms by arith

lemma month_chain:
  fixes l mn dd :: int
  assumes "l = 0 \<or> l = 1" "0 \<le> mn" "mn \<le> 11" "1 \<le> dd"
    "dd \<le> (if mn = 1 then 28 + l else if mn = 3 \<or> mn = 5 \<or> mn = 8 \<or> mn = 10 then 30 else 31)"
  shows "(let d = MonthStart l mn + dd - 1 in
      if d < 31 then 0 else if d < 59 + l then 1 else if d < 90 + l then 2
      else if d < 120 + l then 3 else if d < 151 + l then 4 else if d < 181 + l then 5
      else if d < 212 + l then 6 else if d < 243 + l then 7 else if d < 273 + l then 8
      else if d < 304 + l then 9 else if d < 334 + l then 10 else 11) = mn"
  using month_cases [OF assms(2,3)] assms(1,4,5)
  by (elim disjE; simp add: MonthStart_def Let_def)

lemma fields_MakeDay:
  assumes dd: "1 \<le> dd" "dd \<le> DaysInMonth (y + m div 12) (m mod 12)"
    and t: "Day t = MakeDay y m dd"
  shows "YearFromTime t = y + m div 12" "MonthFromTime t = m mod 12" "DateFromTime t = dd"
proof -
  define ym where "ym = y + m div 12"
  define mn where "mn = m mod 12"
  define l :: int where "l = (if DaysInYear ym = 366 then 1 else 0)"
  have mn: "0 \<le> mn" "mn \<le> 11" by (simp_all add: mn_def)
  have l: "l = 0 \<or> l = 1" by (simp add: l_def)
  have diy: "DaysInYear ym = 365 + l"
    using DaysInYear_cases [of ym] by (auto simp: l_def)
  have dim: "DaysInMonth ym mn =
      (if mn = 1 then 28 + l else if mn = 3 \<or> mn = 5 \<or> mn = 8 \<or> mn = 10 then 30 else 31)"
    by (simp add: DaysInMonth_def l_def)
  have D: "Day t = DayFromYear ym + MonthStart l mn + dd - 1"
    by (simp add: t MakeDay_def Let_def ym_def mn_def l_def)
  have off: "0 \<le> MonthStart l mn + dd - 1" "MonthStart l mn + dd - 1 < 365 + l"
    using month_cases [OF mn] dd l unfolding ym_def [symmetric] mn_def [symmetric] dim
    by (auto simp: MonthStart_def)
  have "DayFromYear ym \<le> Day t" using D off by simp
  moreover have "Day t < DayFromYear (ym + 1)"
    using D off by (simp add: DayFromYear_Suc diy)
  ultimately have y: "YearFromTime t = ym"
    unfolding YearFromTime_def by (rule YearFromDay_unique)
  then show "YearFromTime t = y + m div 12" by (simp add: ym_def)
  have dwy: "DayWithinYear t = MonthStart l mn + dd - 1"
    by (simp add: DayWithinYear_def y D)
  have lp: "InLeapYear t = l" by (simp add: InLeapYear_def y l_def)
  have mft: "MonthFromTime t = mn"
    unfolding MonthFromTime_def dwy lp Let_def [of "MonthStart l mn + dd - 1"] Let_def [of l]
    using l mn dd(1) dd(2) [unfolded ym_def [symmetric] mn_def [symmetric] dim]
    by (rule month_chain [unfolded Let_def])
  then show "MonthFromTime t = m mod 12" by (simp add: mn_def)
  show "DateFromTime t = dd"
    by (simp add: DateFromTime_def dwy lp mft)
qed

lemma MakeDay_next_month:
  "MakeDay y (m + 1) dd = MakeDay y m (dd + DaysInMonth (y + m div 12) (m mod 12))"
proof -
  define q where "q = m div 12"
  define r where "r = m mod 12"
  have m: "m = 12 * q + r" by (simp add: q_def r_def)
  have r: "0 \<le> r" "r \<le> 11" by (simp_all add: r_def)
  define l :: int where "l = (if DaysInYear (y + q) = 366 then 1 else 0)"
  have diy: "DaysInYear (y + q) = 365 + l"
    using DaysInYear_cases [of "y + q"] by (auto simp: l_def)
  have dim: "DaysInMonth (y + q) r =
      (if r = 1 then 28 + l else if r = 3 \<or> r = 5 \<or> r = 8 \<or> r = 10 then 30 else 31)"
    by (simp add: DaysInMonth_def l_def)
  have rhs: "MakeDay y m (dd + DaysInMonth (y + q) r) =
      DayFromYear (y + q) + MonthStart l r + (dd + DaysInMonth (y + q) r) - 1"
    by (simp add: MakeDay_def Let_def q_def r_def l_def)
  show ?thesis
  proof (cases "r = 11")
    case True
    have eq: "m + 1 = 12 * (q + 1) + 0" using m True by simp
    have d: "(m + 1) div 12 = q + 1" using eq by (rule int_div_pos_eq) simp_all
    have mo: "(m + 1) mod 12 = 0" using eq by (rule int_mod_pos_eq) simp_all
    have "MakeDay y (m + 1) dd = DayFromYear (y + q + 1) + dd - 1"
      by (simp add: MakeDay_def Let_def d mo MonthStart_def add.assoc)
    also have "\<dots> = DayFromYear (y + q) + MonthStart l r + (dd + DaysInMonth (y + q) r) - 1"
      unfolding dim by (simp add: DayFromYear_Suc diy True MonthStart_def)
    finally show ?thesis unfolding rhs [symmetric] by (simp add: q_def r_def)
  next
    case False
    have eq: "m + 1 = 12 * q + (r + 1)" using m by simp
    have lt: "r + 1 < 12" using False r by simp
    have d: "(m + 1) div 12 = q" using eq _ lt by (rule int_div_pos_eq) (use r in simp)
    have mo: "(m + 1) mod 12 = r + 1" using eq _ lt by (rule int_mod_pos_eq) (use r in simp)
    have ms: "MonthStart l (r + 1) = MonthStart l r + DaysInMonth (y + q) r"
      unfolding dim using month_cases [OF r] False by (auto simp: MonthStart_def)
    have "MakeDay y (m + 1) dd = DayFromYear (y + q) + MonthStart l (r + 1) + dd - 1"
      by (simp add: MakeDay_def Let_def d mo l_def)
    also have "\<dots> = DayFromYear (y + q) + MonthStart l r + (dd + DaysInMonth (y + q) r) - 1"
      by (simp add: ms)
    finally show ?thesis unfolding rhs [symmetric] by (simp add: q_def r_def)
  qed
qed

lemma DaysInMonth_range: "28 \<le> DaysInMonth y m" "DaysInMonth y m \<le> 31"
  by (simp_all add: DaysInMonth_def)

lemma TimeClip_cases: "TimeClip x = InvalidDate \<or> TimeClip x = TimeValue x"
  by (simp add: TimeClip_def)

lemma TimeClip_TimeValue: "TimeClip x = TimeValue r \<Longrightarrow> r = x"
  by (simp add: TimeClip_def split: if_splits)

lemma MakeDay_date: "MakeDay y m a = MakeDay y m 0 + a"
  by (simp add: MakeDay_def Let_def)

lemma setUTCDate_TimeValue:
  "setUTCDate (TimeValue t) (Some dt) =
     TimeClip (MakeDate (Day t - DateFromTime t + dt) (TimeWithinDay t))"
  by (simp add: setUTCDate_def MakeDay_fields)

lemma MakeDate_shift: "MakeDate (Day t + k) (TimeWithinDay t) = t + k * msPerDay"
  using MakeDate_Day [of t] by (simp add: MakeDate_def algebra_simps)

lemma addToDate_unfold:
  "addToDate date amount U_day operator =
     setUTCDate date (num_plus (getUTCDate date) (amount * (if operator = Plus then 1 else - 1)))"
  "addToDate date amount U_days operator =
     setUTCDate date (num_plus (getUTCDate date) (amount * (if operator = Plus then 1 else - 1)))"
  "addToDate date amount U_week operator =
     setUTCDate date
       (num_plus (getUTCDate date) (amount * (if operator = Plus then 1 else - 1) * 7))"
  "addToDate date amount U_weeks operator =
     setUTCDate date
       (num_plus (getUTCDate date) (amount * (if operator = Plus then 1 else - 1) * 7))"
  by (simp_all add: addToDate_def Let_def)

lemma addToDate_unfold_month:
  assumes "unit = U_month \<or> unit = U_months"
  shows "addToDate date amount unit operator =
     (let result1 = setUTCMonth date
            (num_plus (getUTCMonth date) (amount * (if operator = Plus then 1 else - 1)))
      in if strict_neq (getUTCDate result1) (getUTCDate date)
         then setUTCDate result1 (Some 0) else result1)"
  using assms by (auto simp: addToDate_def Let_def)

lemma addToDate_unfold_year:
  assumes "unit = U_year \<or> unit = U_years"
  shows "addToDate date amount unit operator =
     (let result1 = setUTCFullYear date
            (num_plus (getUTCFullYear date) (amount * (if operator = Plus then 1 else - 1)))
      in if strict_neq (getUTCDate result1) (getUTCDate date)
         then setUTCDate result1 (Some 0) else result1)"
  using assms by (auto simp: addToDate_def Let_def)

lemma addToDate_days:
  assumes "unit = U_day \<or> unit = U_days"
  shows "addToDate (TimeValue t) amount unit operator =
           TimeClip (t + (if operator = Plus then amount else - amount) * msPerDay)"
proof -
  have "addToDate (TimeValue t) amount unit operator =
      TimeClip (MakeDate (Day t + amount * (if operator = Plus then 1 else - 1)) (TimeWithinDay t))"
    using assms
    by (auto simp: addToDate_unfold getUTCDate_def num_plus_def setUTCDate_TimeValue)
  then show ?thesis
    unfolding MakeDate_shift by (simp split: if_splits)
qed

lemma addToDate_weeks:
  assumes "unit = U_week \<or> unit = U_weeks"
  shows "addToDate (TimeValue t) amount unit operator =
           TimeClip (t + 7 * (if operator = Plus then amount else - amount) * msPerDay)"
proof -
  have "addToDate (TimeValue t) amount unit operator =
      TimeClip (MakeDate (Day t + amount * (if operator = Plus then 1 else - 1) * 7)
                  (TimeWithinDay t))"
    using assms
    by (auto simp: addToDate_unfold getUTCDate_def num_plus_def setUTCDate_TimeValue)
  then show ?thesis
    unfolding MakeDate_shift by (simp add: mult.commute split: if_splits)
qed

text \<open>Setting the month or the year and clamping the day.\<close>

lemma fields_of_clipped:
  assumes dd: "1 \<le> dd" "dd \<le> DaysInMonth (Y + M div 12) (M mod 12)"
    and tw: "0 \<le> tw" "tw < msPerDay"
    and r: "TimeClip (MakeDate (MakeDay Y M dd) tw) = TimeValue r"
  shows "YearFromTime r = Y + M div 12" "MonthFromTime r = M mod 12" "DateFromTime r = dd"
    "TimeWithinDay r = tw"
proof -
  have req: "r = MakeDate (MakeDay Y M dd) tw"
    using r by (rule TimeClip_TimeValue)
  have day: "Day r = MakeDay Y M dd" and "TimeWithinDay r = tw"
    unfolding req using tw by (rule Day_MakeDate)+
  then show "TimeWithinDay r = tw" by simp
  show "YearFromTime r = Y + M div 12" "MonthFromTime r = M mod 12" "DateFromTime r = dd"
    using dd day by (rule fields_MakeDay)+
qed

lemma set_and_clamp:
  fixes Y M d tw :: int
  assumes d: "1 \<le> d" "d \<le> 31" and tw: "0 \<le> tw" "tw < msPerDay"
  defines "result1 \<equiv> TimeClip (MakeDate (MakeDay Y M d) tw)"
  defines "dim \<equiv> DaysInMonth (Y + M div 12) (M mod 12)"
  shows "(if strict_neq (getUTCDate result1) (Some d) then setUTCDate result1 (Some 0) else result1)
         = (if result1 = InvalidDate then InvalidDate
            else TimeClip (MakeDate (MakeDay Y M (min d dim)) tw))"
proof (cases "result1 = InvalidDate")
  case True
  then show ?thesis
    by (simp add: getUTCDate_def strict_neq_def setUTCDate_def)
next
  case False
  define t1 where "t1 = MakeDate (MakeDay Y M d) tw"
  have r1: "result1 = TimeValue t1"
    using False TimeClip_cases [of t1] by (simp add: result1_def t1_def)
  have day1: "Day t1 = MakeDay Y M d" and tw1: "TimeWithinDay t1 = tw"
    unfolding t1_def using tw by (rule Day_MakeDate)+
  show ?thesis
  proof (cases "d \<le> dim")
    case True
    have "DateFromTime t1 = d"
      using d(1) True [unfolded dim_def] day1 by (rule fields_MakeDay)
    with True show ?thesis
      using r1 r1 [unfolded result1_def]
      by (simp add: getUTCDate_def strict_neq_def min_def t1_def)
  next
    case over: False
    have dim: "28 \<le> dim" "dim \<le> 31"
      unfolding dim_def by (rule DaysInMonth_range)+
    have roll: "MakeDay Y M d = MakeDay Y (M + 1) (d - dim)"
      unfolding MakeDay_next_month dim_def by simp
    have "1 \<le> d - dim" using over by simp
    moreover have "d - dim \<le> DaysInMonth (Y + (M + 1) div 12) ((M + 1) mod 12)"
      using d dim DaysInMonth_range(1) [of "Y + (M + 1) div 12" "(M + 1) mod 12"] by linarith
    moreover have "Day t1 = MakeDay Y (M + 1) (d - dim)"
      using day1 roll by simp
    ultimately have date1: "DateFromTime t1 = d - dim"
      by (rule fields_MakeDay)
    have ne: "DateFromTime t1 \<noteq> d" using date1 dim by simp
    have "Day t1 - DateFromTime t1 + 0 = MakeDay Y M dim"
      unfolding day1 date1 using MakeDay_date [of Y M d] MakeDay_date [of Y M dim] by simp
    then have "setUTCDate result1 (Some 0) = TimeClip (MakeDate (MakeDay Y M dim) tw)"
      unfolding r1 setUTCDate_TimeValue tw1 by simp
    then show ?thesis
      using over False ne r1 by (simp add: getUTCDate_def strict_neq_def min_def)
  qed
qed

section \<open>addToDate\<close>

lemma date_1_31: "1 \<le> DateFromTime t" "DateFromTime t \<le> 31"
  using fields_range(3,4) [of t] DaysInMonth_range(2) [of "YearFromTime t" "MonthFromTime t"]
  by linarith+

lemma addToDate_months:
  assumes "unit = U_month \<or> unit = U_months"
  shows "addToDate (TimeValue t) amount unit operator =
     (let M = MonthFromTime t + (if operator = Plus then amount else - amount);
          d = DateFromTime t;
          dim = DaysInMonth (YearFromTime t + M div 12) (M mod 12)
      in if TimeClip (MakeDate (MakeDay (YearFromTime t) M d) (TimeWithinDay t)) = InvalidDate
         then InvalidDate
         else TimeClip (MakeDate (MakeDay (YearFromTime t) M (min d dim)) (TimeWithinDay t)))"
proof -
  have k: "amount * (if operator = Plus then 1 else - 1) = (if operator = Plus then amount else - amount)"
    by simp
  have s1: "setUTCMonth (TimeValue t) (num_plus (getUTCMonth (TimeValue t)) K) =
      TimeClip (MakeDate (MakeDay (YearFromTime t) (MonthFromTime t + K) (DateFromTime t))
                  (TimeWithinDay t))" for K
    by (simp add: getUTCMonth_def num_plus_def setUTCMonth_def)
  have g: "getUTCDate (TimeValue t) = Some (DateFromTime t)"
    by (simp add: getUTCDate_def)
  show ?thesis
    unfolding addToDate_unfold_month [OF assms] k Let_def s1 g
    by (rule set_and_clamp [OF date_1_31 [of t] TimeWithinDay_range [of t]])
qed

lemma addToDate_years:
  assumes "unit = U_year \<or> unit = U_years"
  shows "addToDate (TimeValue t) amount unit operator =
     (let Y = YearFromTime t + (if operator = Plus then amount else - amount);
          d = DateFromTime t;
          dim = DaysInMonth Y (MonthFromTime t)
      in if TimeClip (MakeDate (MakeDay Y (MonthFromTime t) d) (TimeWithinDay t)) = InvalidDate
         then InvalidDate
         else TimeClip (MakeDate (MakeDay Y (MonthFromTime t) (min d dim)) (TimeWithinDay t)))"
proof -
  have k: "amount * (if operator = Plus then 1 else - 1) = (if operator = Plus then amount else - amount)"
    by simp
  have m: "MonthFromTime t div 12 = 0" "MonthFromTime t mod 12 = MonthFromTime t"
    using fields_range(1,2) [of t] by simp_all
  have s1: "setUTCFullYear (TimeValue t) (num_plus (getUTCFullYear (TimeValue t)) K) =
      TimeClip (MakeDate (MakeDay (YearFromTime t + K) (MonthFromTime t) (DateFromTime t))
                  (TimeWithinDay t))" for K
    by (simp add: getUTCFullYear_def num_plus_def setUTCFullYear_def)
  have g: "getUTCDate (TimeValue t) = Some (DateFromTime t)"
    by (simp add: getUTCDate_def)
  show ?thesis
    unfolding addToDate_unfold_year [OF assms] k Let_def s1 g
    using set_and_clamp [OF date_1_31 [of t] TimeWithinDay_range [of t],
            of "YearFromTime t + (if operator = Plus then amount else - amount)" "MonthFromTime t"]
    unfolding m by simp
qed

lemma MakeDay_normal: "MakeDay (y + M div 12) (M mod 12) dd = MakeDay y M dd"
  by (simp add: MakeDay_def Let_def)

text \<open>
  The last day of the range of a \<open>Date\<close> is 275760-09-13, day \<open>100000000\<close>: no month ends on
  it or on the three days before it, so the date that \<open>setUTCMonth\<close> or \<open>setUTCFullYear\<close>
  rolls over to, at most three days after the clamped one, is valid whenever the clamped
  one is.
\<close>

lemma MakeDay_275760_09_13: "MakeDay 275760 8 13 = 100000000"
  by code_simp

lemma DaysInMonth_275760_09: "DaysInMonth (275760 + 8 div 12) (8 mod 12) = 30"
  by (simp add: DaysInMonth_def)

lemma no_month_end_at_range_end:
  assumes dd: "1 \<le> dd" "dd \<le> DaysInMonth (Y + M div 12) (M mod 12)"
    and D: "100000000 - 3 \<le> MakeDay Y M dd" "MakeDay Y M dd \<le> 100000000"
  shows "dd \<le> 13"
proof -
  define j where "j = 100000000 - MakeDay Y M dd"
  define t where "t = MakeDate (MakeDay Y M dd) 0"
  have j: "0 \<le> j" "j \<le> 3" using D by (simp_all add: j_def)
  have day: "Day t = MakeDay Y M dd"
    unfolding t_def by (rule Day_MakeDate) (simp_all add: msPerDay_def)
  have "MakeDay 275760 8 (13 - j) = MakeDay Y M dd"
    using MakeDay_date [of 275760 8 "13 - j"] MakeDay_date [of 275760 8 13] MakeDay_275760_09_13
    by (simp add: j_def)
  then have day': "Day t = MakeDay 275760 8 (13 - j)" using day by simp
  have "1 \<le> 13 - j" using j by simp
  moreover have "13 - j \<le> DaysInMonth (275760 + 8 div 12) (8 mod 12)"
    unfolding DaysInMonth_275760_09 using j by simp
  ultimately have "DateFromTime t = 13 - j"
    using day' by (rule fields_MakeDay)
  moreover have "DateFromTime t = dd"
    using dd day by (rule fields_MakeDay)
  ultimately show ?thesis using j by simp
qed

lemma rolled_valid:
  fixes Y M d tw dim :: int
  assumes d: "1 \<le> d" "d \<le> 31" and tw: "0 \<le> tw" "tw < msPerDay"
    and dim: "dim = DaysInMonth (Y + M div 12) (M mod 12)"
    and v: "TimeClip (MakeDate (MakeDay Y M (min d dim)) tw) \<noteq> InvalidDate"
  shows "TimeClip (MakeDate (MakeDay Y M d) tw) \<noteq> InvalidDate"
proof (cases "d \<le> dim")
  case True
  then show ?thesis using v by (simp add: min_def)
next
  case False
  have dim28: "28 \<le> dim" unfolding dim by (rule DaysInMonth_range)
  define D where "D = MakeDay Y M dim"
  define e where "e = d - dim"
  have e: "1 \<le> e" "e \<le> 3" using False d dim28 by (simp_all add: e_def)
  have roll: "MakeDay Y M d = D + e"
    using MakeDay_date [of Y M d] MakeDay_date [of Y M dim] by (simp add: e_def D_def)
  have m: "min d dim = dim" using False by simp
  have lo: "- 8640000000000000 \<le> 86400000 * D + tw" and hi: "86400000 * D + tw \<le> 8640000000000000"
    using v unfolding m D_def [symmetric]
    by (simp_all add: TimeClip_def MakeDate_def msPerDay_def split: if_splits)
  have D_hi: "D \<le> 100000000" using hi tw by simp
  have "D + e < 100000000"
  proof (rule ccontr)
    assume "\<not> D + e < 100000000"
    then have "100000000 - 3 \<le> D" using e by simp
    then have "dim \<le> 13"
      using no_month_end_at_range_end [of dim Y M] dim28 dim D_hi by (simp add: D_def)
    then show False using dim28 by simp
  qed
  then have "86400000 * (D + e) + tw \<le> 8640000000000000"
    using tw by (simp add: msPerDay_def)
  moreover have "- 8640000000000000 \<le> 86400000 * (D + e) + tw"
    using lo e by simp
  ultimately show ?thesis
    unfolding roll by (simp add: TimeClip_def MakeDate_def msPerDay_def)
qed

lemma set_and_clamp_exact:
  fixes Y M d tw dim :: int
  assumes d: "1 \<le> d" "d \<le> 31" and tw: "0 \<le> tw" "tw < msPerDay"
    and dim: "dim = DaysInMonth (Y + M div 12) (M mod 12)"
    and target: "target = MakeDate (MakeDay Y M (min d dim)) tw"
    and eq: "result = (if TimeClip (MakeDate (MakeDay Y M d) tw) = InvalidDate then InvalidDate
                       else TimeClip target)"
  shows "result = TimeClip target \<and> YearFromTime target = Y + M div 12 \<and>
         MonthFromTime target = M mod 12 \<and> DateFromTime target = min d dim \<and>
         TimeWithinDay target = tw"
proof -
  have dim28: "28 \<le> dim" unfolding dim by (rule DaysInMonth_range)
  have a: "1 \<le> min d dim" using d(1) dim28 by simp
  have b: "min d dim \<le> DaysInMonth (Y + M div 12) (M mod 12)" by (simp add: dim)
  have day: "Day target = MakeDay Y M (min d dim)" and twd: "TimeWithinDay target = tw"
    unfolding target using tw by (rule Day_MakeDate)+
  have f: "YearFromTime target = Y + M div 12" "MonthFromTime target = M mod 12"
    "DateFromTime target = min d dim"
    using a b day by (rule fields_MakeDay)+
  have r: "result = TimeClip target"
  proof (cases "TimeClip target = InvalidDate")
    case True
    then show ?thesis using eq by simp
  next
    case False
    have "TimeClip (MakeDate (MakeDay Y M d) tw) \<noteq> InvalidDate"
      using d tw dim False [unfolded target] by (rule rolled_valid)
    then show ?thesis using eq by simp
  qed
  show ?thesis using r f twd by simp
qed

text \<open>
  C1, as amended. For every time value \<open>t\<close>, amount and operator, with \<open>k\<close> the signed
  amount: with \<open>day\<close> or \<open>days\<close> the result is \<open>t\<close> shifted by exactly \<open>k\<close> days, and with
  \<open>week\<close> or \<open>weeks\<close> by \<open>7 * k\<close> days, clipped to the range of a \<open>Date\<close> (an Invalid Date
  beyond it). With \<open>month\<close> or \<open>months\<close> the target month is \<open>k\<close> months after the month of
  \<open>t\<close>, with \<open>year\<close> or \<open>years\<close> the same month \<open>k\<close> years later; the target instant has the
  target's year and month, the day of \<open>t\<close> clamped to the length of the target month, and the
  time within the day of \<open>t\<close>; and the result is exactly the target instant, clipped to the
  range of a \<open>Date\<close>.
\<close>

theorem addToDate_shifts:
  assumes "k = (if operator = Plus then amount else - amount)"
    and "result = addToDate (TimeValue t) amount unit operator"
    and "y' = (if unit \<in> {U_year, U_years} then YearFromTime t + k
               else YearFromTime t + (MonthFromTime t + k) div 12)"
    and "m' = (if unit \<in> {U_year, U_years} then MonthFromTime t
               else (MonthFromTime t + k) mod 12)"
    and "d' = min (DateFromTime t) (DaysInMonth y' m')"
    and "target = MakeDate (MakeDay y' m' d') (TimeWithinDay t)"
  shows "(unit \<in> {U_day, U_days} \<longrightarrow> result = TimeClip (t + k * msPerDay)) \<and>
         (unit \<in> {U_week, U_weeks} \<longrightarrow> result = TimeClip (t + 7 * k * msPerDay)) \<and>
         (unit \<in> {U_month, U_months, U_year, U_years} \<longrightarrow>
            result = TimeClip target \<and> YearFromTime target = y' \<and> MonthFromTime target = m' \<and>
            DateFromTime target = d' \<and> TimeWithinDay target = TimeWithinDay t)"
proof -
  note k = assms(1) and result = assms(2) and y' = assms(3) and m' = assms(4)
    and d' = assms(5) and target = assms(6)
  have days: "result = TimeClip (t + k * msPerDay)" if "unit \<in> {U_day, U_days}"
    using that addToDate_days [of unit t amount operator] by (auto simp: result k)
  have weeks: "result = TimeClip (t + 7 * k * msPerDay)" if "unit \<in> {U_week, U_weeks}"
    using that addToDate_weeks [of unit t amount operator] by (auto simp: result k)
  have months:
    "result = TimeClip target \<and> YearFromTime target = y' \<and> MonthFromTime target = m' \<and>
     DateFromTime target = d' \<and> TimeWithinDay target = TimeWithinDay t"
    if u: "unit \<in> {U_month, U_months}"
  proof -
    have u': "unit = U_month \<or> unit = U_months" using u by simp
    have y: "y' = YearFromTime t + (MonthFromTime t + k) div 12"
      and m: "m' = (MonthFromTime t + k) mod 12"
      using u by (auto simp: y' m')
    have tg: "target = MakeDate (MakeDay (YearFromTime t) (MonthFromTime t + k)
                (min (DateFromTime t) (DaysInMonth y' m'))) (TimeWithinDay t)"
      unfolding target d' unfolding y m MakeDay_normal ..
    have eq: "result =
        (if TimeClip (MakeDate (MakeDay (YearFromTime t) (MonthFromTime t + k) (DateFromTime t))
                        (TimeWithinDay t)) = InvalidDate
         then InvalidDate else TimeClip target)"
      unfolding tg result addToDate_months [OF u'] Let_def k y m ..
    have dim: "DaysInMonth y' m' = DaysInMonth (YearFromTime t + (MonthFromTime t + k) div 12)
        ((MonthFromTime t + k) mod 12)"
      unfolding y m ..
    show ?thesis
      using set_and_clamp_exact [OF date_1_31 [of t] TimeWithinDay_range [of t] dim tg eq]
      unfolding y [symmetric] m [symmetric] d' [symmetric] .
  qed
  have years:
    "result = TimeClip target \<and> YearFromTime target = y' \<and> MonthFromTime target = m' \<and>
     DateFromTime target = d' \<and> TimeWithinDay target = TimeWithinDay t"
    if u: "unit \<in> {U_year, U_years}"
  proof -
    have u': "unit = U_year \<or> unit = U_years" using u by simp
    have y: "y' = YearFromTime t + k" and m: "m' = MonthFromTime t"
      using u by (auto simp: y' m')
    have mm: "m' div 12 = 0" "m' mod 12 = m'"
      using fields_range(1,2) [of t] by (simp_all add: m)
    have tg: "target = MakeDate (MakeDay y' m' (min (DateFromTime t) (DaysInMonth y' m')))
                (TimeWithinDay t)"
      unfolding target d' ..
    have eq: "result =
        (if TimeClip (MakeDate (MakeDay y' m' (DateFromTime t)) (TimeWithinDay t)) = InvalidDate
         then InvalidDate else TimeClip target)"
      unfolding tg result addToDate_years [OF u'] Let_def k y m ..
    have dim: "DaysInMonth y' m' = DaysInMonth (y' + m' div 12) (m' mod 12)"
      by (simp add: mm)
    have yy: "y' + m' div 12 = y'" by (simp add: mm)
    show ?thesis
      using set_and_clamp_exact [OF date_1_31 [of t] TimeWithinDay_range [of t] dim tg eq]
      unfolding mm(2) yy d' [symmetric] .
  qed
  have my: "unit \<in> {U_month, U_months, U_year, U_years} \<longleftrightarrow>
      unit \<in> {U_month, U_months} \<or> unit \<in> {U_year, U_years}"
    by auto
  show ?thesis
    unfolding my
    apply (intro conjI impI)
    subgoal by (rule days)
    subgoal by (rule weeks)
    subgoal by (erule disjE) (rule months [THEN conjunct1], assumption, rule years [THEN conjunct1], assumption)
    subgoal by (erule disjE) (rule months [THEN conjunct2, THEN conjunct1], assumption,
                               rule years [THEN conjunct2, THEN conjunct1], assumption)
    subgoal by (erule disjE) (rule months [THEN conjunct2, THEN conjunct2, THEN conjunct1], assumption,
                               rule years [THEN conjunct2, THEN conjunct2, THEN conjunct1], assumption)
    subgoal by (erule disjE) (rule months [THEN conjunct2, THEN conjunct2, THEN conjunct2, THEN conjunct1], assumption,
                               rule years [THEN conjunct2, THEN conjunct2, THEN conjunct2, THEN conjunct1], assumption)
    subgoal by (erule disjE) (rule months [THEN conjunct2, THEN conjunct2, THEN conjunct2, THEN conjunct2], assumption,
                               rule years [THEN conjunct2, THEN conjunct2, THEN conjunct2, THEN conjunct2], assumption)
    done
qed

lemma fields_2026_01_31:
  "YearFromTime 1769817600000 = 2026 \<and> MonthFromTime 1769817600000 = 0 \<and>
   DateFromTime 1769817600000 = 31"
  by code_simp

lemma clip_2026_02_28: "TimeClip 1772236800000 = TimeValue 1772236800000"
  by (simp add: TimeClip_def)

lemma target_2026_02_28: "MakeDate (MakeDay 2026 1 28) 0 = 1772236800000"
  by code_simp

lemma time_2026_01_31: "TimeWithinDay 1769817600000 = 0"
  by code_simp

theorem addToDate_shifts_witness:
  "addToDate (TimeValue 1769817600000) 1 U_month Plus = TimeValue 1772236800000 \<and>
   YearFromTime 1769817600000 = 2026 \<and> MonthFromTime 1769817600000 = 0 \<and>
   DateFromTime 1769817600000 = 31 \<and> TimeWithinDay 1769817600000 = 0 \<and>
   YearFromTime 1772236800000 = 2026 \<and> MonthFromTime 1772236800000 = 1 \<and>
   DateFromTime 1772236800000 = 28 \<and> TimeWithinDay 1772236800000 = 0"
proof -
  have u: "U_month \<in> {U_month, U_months, U_year, U_years}" by simp
  have dim: "DaysInMonth 2026 1 = 28" by (simp add: DaysInMonth_def DaysInYear_def)
  have f: "YearFromTime 1769817600000 = 2026" "MonthFromTime 1769817600000 = 0"
    "DateFromTime 1769817600000 = 31"
    using fields_2026_01_31 by simp_all
  note s = f dim time_2026_01_31 target_2026_02_28 clip_2026_02_28
  note th = addToDate_shifts [OF refl refl refl refl refl refl,
      where t = 1769817600000 and operator = Plus and amount = 1 and unit = U_month,
      THEN conjunct2, THEN conjunct2, THEN mp, OF u]
  have r: "addToDate (TimeValue 1769817600000) 1 U_month Plus = TimeValue 1772236800000"
    using th [THEN conjunct1] by (simp add: s)
  have y: "YearFromTime 1772236800000 = 2026"
    using th [THEN conjunct2, THEN conjunct1] by (simp add: s)
  have m: "MonthFromTime 1772236800000 = 1"
    using th [THEN conjunct2, THEN conjunct2, THEN conjunct1] by (simp add: s)
  have d: "DateFromTime 1772236800000 = 28"
    using th [THEN conjunct2, THEN conjunct2, THEN conjunct2, THEN conjunct1] by (simp add: s)
  have w: "TimeWithinDay 1772236800000 = 0"
    using th [THEN conjunct2, THEN conjunct2, THEN conjunct2, THEN conjunct2] by (simp add: s)
  show ?thesis using r f y m d w time_2026_01_31 by simp
qed

text \<open>
  C1 as stated fails at the end of the range of a \<open>Date\<close>: the last valid date,
  275760-09-13, plus one day is an Invalid Date, not the date one day later.
\<close>

theorem addToDate_leaves_range:
  "TimeClip 8640000000000000 = TimeValue 8640000000000000 \<and>
   addToDate (TimeValue 8640000000000000) 1 U_day Plus = InvalidDate"
  by code_simp

section \<open>formatDate and parseDate\<close>

lemma digit_char:
  assumes "k < 10"
  shows "is_digit (char_of (48 + k))" and "digit_val (char_of (48 + k)) = int k"
  using assms by (simp_all add: is_digit_def digit_val_def)

lemma string_of_nat_1: "n < 10 \<Longrightarrow> string_of_nat n = [char_of (48 + n)]"
  by (simp add: string_of_nat.simps)

lemma string_of_nat_2:
  assumes "10 \<le> n" "n < 100"
  shows "string_of_nat n = [char_of (48 + n div 10), char_of (48 + n mod 10)]"
proof -
  have "n div 10 < 10" using assms by simp
  then show ?thesis
    using assms by (subst string_of_nat.simps) (simp add: string_of_nat_1)
qed

lemma string_of_nat_4:
  assumes "1000 \<le> n" "n < 10000"
  shows "string_of_nat n =
    [char_of (48 + n div 1000), char_of (48 + n div 100 mod 10),
     char_of (48 + n div 10 mod 10), char_of (48 + n mod 10)]"
proof -
  have d2: "n div 10 div 10 = n div 100" and d3: "n div 100 div 10 = n div 1000"
    by (simp_all add: div_mult2_eq [symmetric])
  have n1: "\<not> n < 10" and n2: "\<not> n div 10 < 10" and n3: "10 \<le> n div 100" "n div 100 < 100"
    using assms by simp_all
  have a: "string_of_nat n = string_of_nat (n div 10) @ [char_of (48 + n mod 10)]"
    by (subst string_of_nat.simps) (simp only: n1 if_False)
  have b: "string_of_nat (n div 10) = string_of_nat (n div 100) @ [char_of (48 + n div 10 mod 10)]"
    by (subst string_of_nat.simps) (simp only: n2 if_False d2)
  have c: "string_of_nat (n div 100) = [char_of (48 + n div 1000), char_of (48 + n div 100 mod 10)]"
    using string_of_nat_2 [OF n3] by (simp only: d3)
  show ?thesis by (simp add: a b c)
qed

lemma char_of_48: "char_of (48 :: nat) = CHR ''0''"
  by code_simp

lemma padStart2_string_of_nat:
  assumes "n < 100"
  shows "padStart2 (string_of_nat n) = [char_of (48 + n div 10), char_of (48 + n mod 10)]"
proof (cases "n < 10")
  case True
  then show ?thesis by (simp add: padStart2_def string_of_nat_1 char_of_48)
next
  case False
  then show ?thesis using assms by (simp add: padStart2_def string_of_nat_2)
qed

lemma parseInt10_string_of_nat: "parseInt10 (string_of_nat n) = int n"
proof (induction n rule: string_of_nat.induct)
  case (1 n)
  show ?case
  proof (cases "n < 10")
    case True
    then show ?thesis by (simp add: string_of_nat_1 parseInt10_def digit_char)
  next
    case False
    have "n mod 10 < 10" by simp
    then have dv: "digit_val (char_of (48 + n mod 10)) = int (n mod 10)" by (rule digit_char)
    have "parseInt10 (string_of_nat n) =
        10 * parseInt10 (string_of_nat (n div 10)) + digit_val (char_of (48 + n mod 10))"
      using False by (subst string_of_nat.simps) (simp add: parseInt10_def)
    also have "\<dots> = 10 * int (n div 10) + int (n mod 10)"
      using "1.IH" [OF False] dv by simp
    also have "\<dots> = int n" by (simp add: zdiv_int zmod_int)
    finally show ?thesis .
  qed
qed

lemma formatDate_4_digit_year:
  assumes y: "1000 \<le> YearFromTime t" "YearFromTime t \<le> 9999"
  defines "y \<equiv> nat (YearFromTime t)" and "m \<equiv> nat (MonthFromTime t + 1)"
    and "d \<equiv> nat (DateFromTime t)"
  shows "formatDate (TimeValue t) =
    [char_of (48 + y div 1000), char_of (48 + y div 100 mod 10),
     char_of (48 + y div 10 mod 10), char_of (48 + y mod 10), CHR ''-'',
     char_of (48 + m div 10), char_of (48 + m mod 10), CHR ''-'',
     char_of (48 + d div 10), char_of (48 + d mod 10)]"
proof -
  have yr: "1000 \<le> y" "y < 10000" using y by (simp_all add: y_def)
  have mr: "m < 100" using fields_range(1,2) [of t] by (simp add: m_def)
  have dr: "d < 100" using date_1_31 [of t] by (simp add: d_def)
  have m0: "\<not> MonthFromTime t + 1 < 0" using fields_range(1) [of t] by simp
  have d0: "\<not> DateFromTime t < 0" using date_1_31(1) [of t] by simp
  have y0: "\<not> YearFromTime t < 0" using y by simp
  have "String_int (YearFromTime t) = string_of_nat y"
    by (simp add: String_int_def y0 y_def)
  moreover have "String_int (MonthFromTime t + 1) = string_of_nat m"
    by (simp only: String_int_def m0 if_False m_def)
  moreover have "String_int (DateFromTime t) = string_of_nat d"
    by (simp only: String_int_def d0 if_False d_def)
  ultimately show ?thesis
    by (simp add: formatDate_def Let_def getUTCFullYear_def getUTCMonth_def getUTCDate_def
        num_plus_def String_num_def string_of_nat_4 [OF yr] padStart2_string_of_nat [OF mr]
        padStart2_string_of_nat [OF dr])
qed

lemma two_digits:
  fixes n :: nat
  assumes "n < 100"
  shows "n div 10 < 10" "n mod 10 < 10"
    "parseInt10 [char_of (48 + n div 10), char_of (48 + n mod 10)] = int n"
proof -
  show a: "n div 10 < 10" using assms by simp
  show b: "n mod 10 < 10" by simp
  show "parseInt10 [char_of (48 + n div 10), char_of (48 + n mod 10)] = int n"
    by (simp add: parseInt10_def digit_char [OF a] digit_char [OF b] zdiv_int zmod_int)
qed

lemma four_digits:
  fixes n :: nat
  assumes "1000 \<le> n" "n < 10000"
  shows "n div 1000 < 10" "n div 100 mod 10 < 10" "n div 10 mod 10 < 10" "n mod 10 < 10"
    "parseInt10 [char_of (48 + n div 1000), char_of (48 + n div 100 mod 10),
                 char_of (48 + n div 10 mod 10), char_of (48 + n mod 10)] = int n"
proof -
  show "n div 1000 < 10" using assms by simp
  show "n div 100 mod 10 < 10" "n div 10 mod 10 < 10" "n mod 10 < 10" by simp_all
  show "parseInt10 [char_of (48 + n div 1000), char_of (48 + n div 100 mod 10),
                 char_of (48 + n div 10 mod 10), char_of (48 + n mod 10)] = int n"
    using parseInt10_string_of_nat [of n] by (simp only: string_of_nat_4 [OF assms])
qed

lemma year_in_range:
  assumes "1000 \<le> YearFromTime t" "YearFromTime t \<le> 9999"
  shows "TimeClip t = TimeValue t"
proof -
  have "DayFromYear 1000 \<le> DayFromYear (YearFromTime t)"
    using assms(1) by (rule DayFromYear_le)
  then have lo: "- 354285 \<le> Day t"
    using YearFromDay_bounds(1) [of "Day t"] by (simp add: YearFromTime_def DayFromYear_def)
  have "DayFromYear (YearFromTime t + 1) \<le> DayFromYear 10000"
    using assms(2) by (intro DayFromYear_le) simp
  then have hi: "Day t < 2932897"
    using YearFromDay_bounds(2) [of "Day t"] by (simp add: YearFromTime_def DayFromYear_def)
  have t: "t = Day t * 86400000 + TimeWithinDay t"
    using MakeDate_Day [of t] by (simp add: MakeDate_def msPerDay_def)
  have "0 \<le> TimeWithinDay t" "TimeWithinDay t < 86400000"
    using TimeWithinDay_range [of t] by (simp_all add: msPerDay_def)
  with t lo hi have "\<bar>t\<bar> \<le> 8640000000000000" by linarith
  then show ?thesis by (simp add: TimeClip_def)
qed

text \<open>
  C2, as amended. For every date with no time of day whose year is between 1000 and 9999,
  parsing the string \<open>formatDate\<close> makes of it gives the date back, whatever the host
  does with date-time strings.
\<close>

theorem parseDate_formatDate:
  assumes tw: "TimeWithinDay t = 0"
    and y: "1000 \<le> YearFromTime t" "YearFromTime t \<le> 9999"
  shows "parseDate new_Date (formatDate (TimeValue t)) = Some (TimeValue t)"
proof -
  define yn where "yn = nat (YearFromTime t)"
  define mn where "mn = nat (MonthFromTime t + 1)"
  define dn where "dn = nat (DateFromTime t)"
  define s where "s = formatDate (TimeValue t)"
  have yr: "1000 \<le> yn" "yn < 10000" using y by (simp_all add: yn_def)
  have mr: "mn < 100" using fields_range(1,2) [of t] by (simp add: mn_def)
  have dr: "dn < 100" using date_1_31 [of t] by (simp add: dn_def)
  have s: "s = [char_of (48 + yn div 1000), char_of (48 + yn div 100 mod 10),
     char_of (48 + yn div 10 mod 10), char_of (48 + yn mod 10), CHR ''-'',
     char_of (48 + mn div 10), char_of (48 + mn mod 10), CHR ''-'',
     char_of (48 + dn div 10), char_of (48 + dn mod 10)]"
    unfolding s_def yn_def mn_def dn_def using y by (rule formatDate_4_digit_year)
  have regex: "isoDateRegex s"
    unfolding s
    by (simp add: isoDateRegex_def date_prefix_def digit_char(1) four_digits(1-4) [OF yr]
        two_digits(1,2) [OF mr] two_digits(1,2) [OF dr])
  have py: "parseInt10 (take 4 s) = YearFromTime t"
    unfolding s using four_digits(5) [OF yr] y by (simp add: yn_def)
  have pm: "parseInt10 (take 2 (drop 5 s)) = MonthFromTime t + 1"
    unfolding s using two_digits(3) [OF mr] fields_range(1) [of t] by (simp add: mn_def)
  have pd: "parseInt10 (take 2 (drop 8 s)) = DateFromTime t"
    unfolding s using two_digits(3) [OF dr] date_1_31(1) [of t] by (simp add: dn_def)
  have "MakeDate (MakeDay (YearFromTime t) (MonthFromTime t) (DateFromTime t)) 0 = t"
    using MakeDate_Day [of t] tw by (simp add: MakeDay_fields)
  then have date: "Date_utc_midnight s = TimeValue t"
    using fields_range(1,2) [of t] date_1_31 [of t] year_in_range [OF y]
    by (simp add: Date_utc_midnight_def py pm pd Let_def)
  show ?thesis
    using regex date unfolding s_def [symmetric]
    by (simp add: parseDate_def Let_def isNaN_getTime_def s_def)
qed

lemma ex_2026_02_16:
  "TimeWithinDay 1771200000000 = 0 \<and> YearFromTime 1771200000000 = 2026 \<and>
   formatDate (TimeValue 1771200000000) = ''2026-02-16''"
  by code_simp

theorem parseDate_formatDate_witness:
  "TimeWithinDay 1771200000000 = 0 \<and> 1000 \<le> YearFromTime 1771200000000 \<and>
   YearFromTime 1771200000000 \<le> 9999 \<and>
   formatDate (TimeValue 1771200000000) = ''2026-02-16'' \<and>
   parseDate (host_Date example_host) ''2026-02-16'' = Some (TimeValue 1771200000000)"
  using parseDate_formatDate [of 1771200000000 "host_Date example_host"] ex_2026_02_16
  by simp

text \<open>
  C2 as stated fails outside these years, by the four digits of the pattern of
  \<open>parseDate\<close>: the valid date 10000-01-01 is formatted with five digits and not accepted.
\<close>

lemma char_of_digit_numerals:
  "char_of (48 :: nat) = CHR ''0''" "char_of (49 :: nat) = CHR ''1''"
  "char_of (50 :: nat) = CHR ''2''" "char_of (51 :: nat) = CHR ''3''"
  "char_of (52 :: nat) = CHR ''4''" "char_of (53 :: nat) = CHR ''5''"
  "char_of (54 :: nat) = CHR ''6''" "char_of (55 :: nat) = CHR ''7''"
  "char_of (56 :: nat) = CHR ''8''" "char_of (57 :: nat) = CHR ''9''"
  by code_simp+

lemma fields_10000_01_01:
  "YearFromTime 253402300800000 = 10000 \<and> MonthFromTime 253402300800000 = 0 \<and>
   DateFromTime 253402300800000 = 1"
  by code_simp

lemma formatDate_10000_01_01: "formatDate (TimeValue 253402300800000) = ''10000-01-01''"
  using fields_10000_01_01
  by (simp add: formatDate_def Let_def getUTCFullYear_def getUTCMonth_def getUTCDate_def
      num_plus_def String_num_def String_int_def padStart2_def string_of_nat.simps
      char_of_digit_numerals)

lemma parseDate_10000_01_01: "parseDate new_Date ''10000-01-01'' = None"
  by (simp add: parseDate_def isoDateRegex_def isoDateTimeRegex_def date_prefix_def)

theorem parseDate_formatDate_year_10000:
  "TimeClip 253402300800000 = TimeValue 253402300800000 \<and>
   TimeWithinDay 253402300800000 = 0 \<and>
   formatDate (TimeValue 253402300800000) = ''10000-01-01'' \<and>
   parseDate (host_Date example_host) (formatDate (TimeValue 253402300800000)) = None"
  by (simp add: formatDate_10000_01_01 parseDate_10000_01_01 TimeClip_def TimeWithinDay_def
      msPerDay_def)

text \<open>
  C8 fails on the code: \<open>formatDate\<close> pads the month and the day and leaves the year as it
  is. The day before the parsed date 1000-01-01 is formatted \<open>999-12-31\<close>, which is not of the
  shape YYYY-MM-DD, and \<open>parseDate\<close> does not accept it.
\<close>

theorem formatDate_year_999:
  "parseDate (host_Date example_host) ''1000-01-01'' = Some (TimeValue (- 30610224000000)) \<and>
   addToDate (TimeValue (- 30610224000000)) 1 U_day Minus = TimeValue (- 30610310400000) \<and>
   formatDate (TimeValue (- 30610310400000)) = ''999-12-31'' \<and>
   parseDate (host_Date example_host) (formatDate (TimeValue (- 30610310400000))) = None"
  by code_simp

lemma plain_is_not_date_time: "isoDateRegex v \<Longrightarrow> \<not> isoDateTimeRegex v"
  by (simp add: isoDateRegex_def isoDateTimeRegex_def)

lemma parseDate_2026_02_30:
  "isoDateRegex ''2026-02-30'' \<and>
   formatDate (Date_utc_midnight ''2026-02-30'') = ''2026-03-02''"
  by code_simp

lemma parseDate_2026_13_01:
  "isoDateRegex ''2026-13-01'' \<and> Date_utc_midnight ''2026-13-01'' = InvalidDate"
  by code_simp

text \<open>
  C4. A string of the plain form YYYY-MM-DD that \<open>parseDate\<close> accepts is the string
  \<open>formatDate\<close> makes of the date returned, which is the date the host constructs from the
  string and is valid; \<open>2026-02-30\<close> and \<open>2026-13-01\<close> are rejected, whatever the host does
  with date-time strings.
\<close>

theorem parseDate_plain_round_trip:
  "(isoDateRegex v \<longrightarrow>
      (\<forall>date. parseDate new_Date v = Some date \<longrightarrow>
         date = Date_utc_midnight v \<and> date \<noteq> InvalidDate \<and> formatDate date = v)) \<and>
   parseDate new_Date ''2026-02-30'' = None \<and>
   parseDate new_Date ''2026-13-01'' = None"
proof (intro conjI impI allI)
  fix date
  assume v: "isoDateRegex v" and p: "parseDate new_Date v = Some date"
  from v have "\<not> isoDateTimeRegex v" by (rule plain_is_not_date_time)
  with v p show "date = Date_utc_midnight v" "date \<noteq> InvalidDate" "formatDate date = v"
    by (auto simp: parseDate_def Let_def isNaN_getTime_def split: if_splits)
next
  have "\<not> isoDateTimeRegex ''2026-02-30''"
    using parseDate_2026_02_30 by (intro plain_is_not_date_time) simp
  then show "parseDate new_Date ''2026-02-30'' = None"
    using parseDate_2026_02_30 by (simp add: parseDate_def Let_def)
next
  have "\<not> isoDateTimeRegex ''2026-13-01''"
    using parseDate_2026_13_01 by (intro plain_is_not_date_time) simp
  then show "parseDate new_Date ''2026-13-01'' = None"
    using parseDate_2026_13_01 by (simp add: parseDate_def Let_def isNaN_getTime_def)
qed

lemma plain_2026_02_16:
  "isoDateRegex ''2026-02-16'' \<and>
   parseDate (host_Date example_host) ''2026-02-16'' = Some (TimeValue 1771200000000)"
  by code_simp

theorem parseDate_plain_round_trip_witness:
  "isoDateRegex ''2026-02-16'' \<and>
   parseDate (host_Date example_host) ''2026-02-16'' = Some (TimeValue 1771200000000) \<and>
   formatDate (TimeValue 1771200000000) = ''2026-02-16''"
proof -
  from plain_2026_02_16 have r: "isoDateRegex ''2026-02-16''"
    and p: "parseDate (host_Date example_host) ''2026-02-16'' = Some (TimeValue 1771200000000)"
    by simp_all
  from parseDate_plain_round_trip [THEN conjunct1, rule_format, OF r p]
  have "formatDate (TimeValue 1771200000000) = ''2026-02-16''" by (rule conjunct2 [THEN conjunct2])
  with r p show ?thesis by simp
qed

section \<open>The variable resolver\<close>

lemma resolve_not_DATE:
  assumes "name \<noteq> ''DATE''" and "name \<notin> dom ctx" and "name \<notin> dom (host_inherited host)"
  shows "resolve host ctx sys name = None"
  using assms by (simp add: resolve_def name_in_def resolveSystemVariable_def Let_def)

lemma Evaluator_evaluate_unresolved:
  assumes "resolve host ctx sys (variable_of ast) = None"
  shows "Evaluator_evaluate host ctx sys ast =
           Inl (evaluation_error UNDEFINED_VARIABLE (Msg_not_defined (variable_of ast))
                  (Token_text (variable_of ast)))"
  using assms by (induction ast) simp_all

text \<open>
  C10. A name other than \<open>DATE\<close> that is not a property of the user context, neither its
  own nor one inherited from its prototype, is not found, whatever the system variables
  given at construction hold under that name, and every expression on that variable,
  the bare reference and any chain of date arithmetic on it, evaluates to an
  \<open>UNDEFINED_VARIABLE\<close> error that names the variable.
\<close>

theorem resolve_system_only_DATE:
  assumes "name \<noteq> ''DATE''" and "name \<notin> dom ctx" and "name \<notin> dom (host_inherited host)"
  shows "resolve host ctx sys name = None \<and>
         (\<forall>ast. variable_of ast = name \<longrightarrow>
            evaluate host ast ctx sys =
              Inl \<lparr>ee_code = UNDEFINED_VARIABLE, ee_message = Msg_not_defined name,
                   ee_token = Token_text name\<rparr>)"
proof -
  have r: "resolve host ctx sys name = None"
    using assms by (rule resolve_not_DATE)
  have "evaluate host ast ctx sys =
          Inl \<lparr>ee_code = UNDEFINED_VARIABLE, ee_message = Msg_not_defined name,
               ee_token = Token_text name\<rparr>" if "variable_of ast = name" for ast
    using Evaluator_evaluate_unresolved [of host ctx sys ast] r that
    by (simp add: evaluate_def evaluation_error_def)
  with r show ?thesis by blast
qed

lemma TODAY_not_inherited: "''TODAY'' \<notin> dom (host_inherited example_host)"
  by (simp add: example_host_def Object_prototype_def)

theorem resolve_system_only_DATE_witness:
  "''TODAY'' \<noteq> ''DATE'' \<and> ''TODAY'' \<notin> dom (Map.empty :: VariableContext) \<and>
   ''TODAY'' \<notin> dom (host_inherited example_host) \<and>
   [''TODAY'' \<mapsto> TimeValue 0] ''TODAY'' = Some (TimeValue 0) \<and>
   variable_of (DateArithmetic (VarRef ''TODAY'') Plus 1 U_day) = ''TODAY'' \<and>
   resolve example_host Map.empty [''TODAY'' \<mapsto> TimeValue 0] ''TODAY'' = None \<and>
   evaluate example_host (DateArithmetic (VarRef ''TODAY'') Plus 1 U_day) Map.empty
       [''TODAY'' \<mapsto> TimeValue 0] =
     Inl \<lparr>ee_code = UNDEFINED_VARIABLE, ee_message = Msg_not_defined ''TODAY'',
          ee_token = Token_text ''TODAY''\<rparr>"
proof -
  note th = resolve_system_only_DATE
              [of "''TODAY''" Map.empty example_host "[''TODAY'' \<mapsto> TimeValue 0]",
               OF _ _ TODAY_not_inherited]
  have a: "''TODAY'' \<noteq> ''DATE''" by simp
  have b: "''TODAY'' \<notin> dom (Map.empty :: VariableContext)" by simp
  have v: "variable_of (DateArithmetic (VarRef ''TODAY'') Plus 1 U_day) = ''TODAY''" by simp
  from th [OF a b, THEN conjunct1] th [OF a b, THEN conjunct2, rule_format, OF v]
       a b v TODAY_not_inherited
  show ?thesis by simp
qed

text \<open>
  The property \<open>toString\<close>, which an object literal inherits, is found in an empty user
  context: the reference evaluates to the function, not to an error.
\<close>

theorem resolve_inherited_toString:
  "''toString'' \<noteq> ''DATE'' \<and> ''toString'' \<notin> dom (Map.empty :: VariableContext) \<and>
   resolve example_host Map.empty Map.empty ''toString'' =
     Some (V_object ''function toString() { [native code] }'') \<and>
   evaluate example_host (VarRef ''toString'') Map.empty Map.empty =
     Inr ''function toString() { [native code] }''"
  by (simp add: resolve_def name_in_def resolveUserVariable_def get_property_def evaluate_def
        example_host_def Object_prototype_def)

text \<open>
  C7. A name of the user context resolves to the typed value inferred from the user's
  string, whatever the system variables hold: a date when \<open>parseDate\<close> accepts the
  string, else a number when \<open>Number\<close> of the string is not \<open>NaN\<close> and the trimmed string
  is not empty, else the string itself.
\<close>

theorem resolve_user_shadows_system:
  assumes "ctx name = Some v"
  shows "resolve host ctx sys name =
           Some (case parseDate (host_Date host) v of
                   Some date \<Rightarrow> V_date date
                 | None \<Rightarrow>
                     (case host_Number host v of
                        Some num \<Rightarrow> if trim v \<noteq> [] then V_number num else V_string v
                      | None \<Rightarrow> V_string v))"
  using assms
  by (auto simp: resolve_def name_in_def resolveUserVariable_def get_property_def Let_def
        split: option.splits)

lemma parseDate_2025_01_01:
  "parseDate (host_Date example_host) ''2025-01-01'' = Some (TimeValue 1735689600000)"
  by code_simp

theorem resolve_user_shadows_system_witness:
  "[''DATE'' \<mapsto> ''2025-01-01''] ''DATE'' = Some ''2025-01-01'' \<and>
   resolve example_host [''DATE'' \<mapsto> ''2025-01-01''] [''DATE'' \<mapsto> TimeValue 0] ''DATE'' =
     Some (V_date (TimeValue 1735689600000))"
  using resolve_user_shadows_system
          [of "[''DATE'' \<mapsto> ''2025-01-01'']" "''DATE''" "''2025-01-01''" example_host
              "[''DATE'' \<mapsto> TimeValue 0]"]
        parseDate_2025_01_01
  by simp

section \<open>The parser\<close>

lemma ends_with_EOF_Cons:
  assumes "ends_with_EOF ts" "tok_type t \<noteq> EOF"
  shows "ends_with_EOF (t # ts)"
  using assms by (simp add: ends_with_EOF_def)

lemma ends_with_EOF_last:
  assumes "ends_with_EOF ts" "Suc n < length ts"
  shows "tok_type (ts ! n) \<noteq> EOF"
proof -
  have "n < length (butlast ts)" using assms(2) by simp
  moreover have "list_all (\<lambda>t. tok_type t \<noteq> EOF) (butlast ts)"
    using assms(1) by (simp add: ends_with_EOF_def)
  ultimately have "tok_type (butlast ts ! n) \<noteq> EOF"
    by (simp add: list_all_length)
  then show ?thesis using \<open>n < length (butlast ts)\<close> by (simp add: nth_butlast)
qed

lemma loop_Nil: "parseExpression_loop host mx node [] = Inl (Throw_Error Msg_no_token)"
  by (subst parseExpression_loop.simps) simp

lemma loop_Cons:
  "parseExpression_loop host mx node (t # ts) =
     (if tok_type t \<noteq> OPERATOR then Inr (node, t # ts)
      else if \<not> isValidOperator (tok_value t)
      then Inl (Throw_ParseError (parser_error (Msg_invalid_operator (tok_value t)) t))
      else
        (case ts of
           [] \<Rightarrow> Inl (Throw_Error Msg_no_token)
         | n # ts1 \<Rightarrow>
             if tok_type n \<noteq> NUMBER
             then Inl (Throw_ParseError (parser_error (Msg_expected NUMBER (tok_type n)) n))
             else
               (case parseInt_amount host (tok_value n) of
                  None \<Rightarrow> Inl (Throw_ParseError (parser_error Msg_not_positive n))
                | Some a \<Rightarrow>
                    if a \<le> 0
                    then Inl (Throw_ParseError (parser_error Msg_not_positive n))
                    else if a > mx
                    then Inl (Throw_ParseError (parser_error (Msg_exceeds_maximum a mx) n))
                    else
                      (case ts1 of
                         [] \<Rightarrow> Inl (Throw_Error Msg_no_token)
                       | u # ts2 \<Rightarrow>
                           if tok_type u \<noteq> UNIT
                           then Inl (Throw_ParseError
                                       (parser_error (Msg_expected UNIT (tok_type u)) u))
                           else if \<not> isValidTimeUnit (tok_value u)
                           then Inl (Throw_ParseError
                                       (parser_error (Msg_invalid_unit (tok_value u)) u))
                           else parseExpression_loop host mx
                                  (DateArithmetic node (as_Operator (tok_value t)) a
                                     (as_TimeUnit (tok_value u)))
                                  ts2))))"
  by (subst parseExpression_loop.simps)
     (auto simp: expect_def advance_def Let_def not_finite_or_not_positive_def
           split: list.splits option.splits)

lemma loop_success:
  "parseExpression_loop host mx node ts = Inr (ast, rest) \<Longrightarrow>
     \<exists>n new. n < length ts \<and> rest = drop n ts \<and> tok_type (ts ! n) \<noteq> OPERATOR \<and>
       (\<forall>i<n. tok_type (ts ! i) \<noteq> EOF \<and>
              (tok_type (ts ! i) = OPERATOR \<longrightarrow> interval_at host mx ts i)) \<and>
       amounts ast = amounts node @ new \<and> list_all (\<lambda>a. 0 < a \<and> a \<le> mx) new"
proof (induction "length ts" arbitrary: ts node rule: less_induct)
  case less
  show ?case
  proof (cases ts)
    case Nil
    with less.prems show ?thesis by (simp add: loop_Nil)
  next
    case (Cons t ts')
    show ?thesis
    proof (cases "tok_type t = OPERATOR")
      case False
      with less.prems Cons have "ast = node" "rest = ts" by (simp_all add: loop_Cons)
      with False Cons show ?thesis
        by (intro exI [of _ 0] exI [of _ "[]"]) simp
    next
      case True
      with less.prems Cons obtain n u ts2 a where
        ts': "ts' = n # u # ts2"
        and n: "tok_type n = NUMBER" "parseInt_amount host (tok_value n) = Some a" "0 < a" "a \<le> mx"
        and u: "tok_type u = UNIT" "isValidTimeUnit (tok_value u)"
        and r: "parseExpression_loop host mx
                  (DateArithmetic node (as_Operator (tok_value t)) a
                     (as_TimeUnit (tok_value u))) ts2 = Inr (ast, rest)"
        by (auto simp: loop_Cons split: if_splits list.splits option.splits)
      have "length ts2 < length ts" by (simp add: Cons ts')
      from less.hyps [OF this r] obtain k new where
        k: "k < length ts2" "rest = drop k ts2" "tok_type (ts2 ! k) \<noteq> OPERATOR"
        and all: "\<forall>i<k. tok_type (ts2 ! i) \<noteq> EOF \<and>
                   (tok_type (ts2 ! i) = OPERATOR \<longrightarrow> interval_at host mx ts2 i)"
        and am: "amounts ast = amounts node @ a # new"
          "list_all (\<lambda>a. 0 < a \<and> a \<le> mx) new"
        by auto
      have ts: "ts = t # n # u # ts2" by (simp add: Cons ts')
      have idx: "tok_type (ts ! i) \<noteq> EOF \<and>
                 (tok_type (ts ! i) = OPERATOR \<longrightarrow> interval_at host mx ts i)"
        if "i < k + 3" for i
      proof -
        consider "i = 0" | "i = 1" | "i = 2" | "3 \<le> i" by linarith
        then show ?thesis
        proof cases
          case 1
          then show ?thesis using True n u by (simp add: ts interval_at_def)
        next
          case 2
          then show ?thesis using n by (simp add: ts)
        next
          case 3
          then show ?thesis using u by (simp add: ts numeral_2_eq_2)
        next
          case 4
          then obtain j where j: "i = j + 3" using le_Suc_ex [of 3 i] by (auto simp: add.commute)
          with that have "j < k" by simp
          with all have "tok_type (ts2 ! j) \<noteq> EOF \<and>
              (tok_type (ts2 ! j) = OPERATOR \<longrightarrow> interval_at host mx ts2 j)" by simp
          moreover have "ts ! i = ts2 ! j" by (simp add: ts j numeral_3_eq_3)
          moreover have "drop i ts = drop j ts2" by (simp add: ts j numeral_3_eq_3)
          ultimately show ?thesis by (simp add: interval_at_def)
        qed
      qed
      show ?thesis
        apply (intro exI [of _ "k + 3"] exI [of _ "a # new"])
        using k idx am n by (simp add: ts numeral_3_eq_3)
    qed
  qed
qed

lemma loop_error_code:
  "parseExpression_loop host mx node ts = Inl (Throw_ParseError pe) \<Longrightarrow> pe_code pe = PARSE_ERROR"
proof (induction "length ts" arbitrary: ts node rule: less_induct)
  case less
  show ?case
  proof (cases ts)
    case Nil
    with less.prems show ?thesis by (simp add: loop_Nil)
  next
    case (Cons t ts')
    show ?thesis
    proof (cases "\<exists>n u ts2. ts' = n # u # ts2")
      case False
      with less.prems Cons show ?thesis
        by (auto simp: loop_Cons parser_error_def split: if_splits list.splits option.splits)
    next
      case True
      then obtain n u ts2 where ts': "ts' = n # u # ts2" by blast
      have "length ts2 < length ts" by (simp add: Cons ts')
      note IH = less.hyps [OF this]
      from less.prems show ?thesis
        unfolding Cons ts'
        by (auto simp: loop_Cons parser_error_def split: if_splits option.splits dest: IH)
    qed
  qed
qed

lemma Parser_parse_error_code:
  "Parser_parse host mx ts = Inl (Throw_ParseError pe) \<Longrightarrow> pe_code pe = PARSE_ERROR"
  by (auto simp: Parser_parse_def parseExpression_def parsePrimary_def parser_error_def
           split: sum.splits list.splits if_splits prod.splits dest: loop_error_code)

lemma parse_error_code:
  assumes "parse host e maxLen mx = Inl err"
  shows "(int (length e) > maxLen \<and>
          err = \<lparr>pe_code = EXPRESSION_TOO_LONG, pe_message = Msg_too_long maxLen,
                 pe_token = e, pe_position = None\<rparr>) \<or>
         (int (length e) \<le> maxLen \<and> pe_code err = PARSE_ERROR)"
proof (cases "int (length e) > maxLen")
  case True
  with assms show ?thesis by (simp add: parse_def)
next
  case False
  with assms have "pe_code err = PARSE_ERROR"
    by (auto simp: parse_def caught_def split: sum.splits Thrown.splits
             dest: Parser_parse_error_code)
  with False show ?thesis by simp
qed

lemma Parser_parse_success:
  assumes eof: "ends_with_EOF ts" and p: "Parser_parse host mx ts = Inr ast"
  shows "\<forall>i<length ts. tok_type (ts ! i) = OPERATOR \<longrightarrow> interval_at host mx ts i"
    and "list_all (\<lambda>a. 0 < a \<and> a \<le> mx) (amounts ast)"
proof -
  from p obtain v ts1 rest where ts: "ts = v # ts1" and v: "tok_type v = VAR"
    and loop: "parseExpression_loop host mx (VarRef (tok_value v)) ts1 = Inr (ast, rest)"
    and rest: "rest \<noteq> []" "tok_type (hd rest) = EOF"
    by (auto simp: Parser_parse_def parseExpression_def parsePrimary_def advance_def
             split: sum.splits list.splits if_splits prod.splits)
  from loop_success [OF loop] obtain n new where
    n: "n < length ts1" "rest = drop n ts1"
    and all: "\<forall>i<n. tok_type (ts1 ! i) \<noteq> EOF \<and>
                (tok_type (ts1 ! i) = OPERATOR \<longrightarrow> interval_at host mx ts1 i)"
    and am: "amounts ast = amounts (VarRef (tok_value v)) @ new"
      "list_all (\<lambda>a. 0 < a \<and> a \<le> mx) new"
    by blast
  show "list_all (\<lambda>a. 0 < a \<and> a \<le> mx) (amounts ast)" using am by simp
  have hd: "tok_type (ts1 ! n) = EOF"
    using rest n by (simp add: hd_drop_conv_nth)
  have last: "Suc (Suc n) = length ts"
  proof (rule ccontr)
    assume ne: "Suc (Suc n) \<noteq> length ts"
    have "Suc n < length ts" using n(1) by (simp add: ts)
    with ne have "Suc (Suc n) < length ts" by simp
    with eof have "tok_type (ts ! Suc n) \<noteq> EOF" by (rule ends_with_EOF_last)
    with hd show False by (simp add: ts)
  qed
  show "\<forall>i<length ts. tok_type (ts ! i) = OPERATOR \<longrightarrow> interval_at host mx ts i"
  proof (intro allI impI)
    fix i assume i: "i < length ts" and op: "tok_type (ts ! i) = OPERATOR"
    have "i \<noteq> 0" using op v by (cases i) (auto simp: ts)
    then obtain j where j: "i = Suc j" by (cases i) auto
    have "j \<noteq> n" using op hd by (auto simp: ts j)
    moreover have "j \<le> n" using i last by (simp add: j)
    ultimately have "j < n" by simp
    with all op have "interval_at host mx ts1 j" by (simp add: ts j)
    then show "interval_at host mx ts i" by (simp add: interval_at_def ts j)
  qed
qed

section \<open>The tokenizer\<close>

lemma run_split:
  "set cs \<subseteq> {x. P x} \<union> set (dropWhile P cs)"
proof -
  have "set cs = set (takeWhile P cs) \<union> set (dropWhile P cs)"
    by (metis set_append takeWhile_dropWhile_id)
  moreover have "set (takeWhile P cs) \<subseteq> {x. P x}"
    using set_takeWhileD [of _ P cs] by blast
  ultimately show ?thesis by blast
qed

lemma tokenize_loop_Cons:
  assumes "tokenize_loop (c # cs) pos = Inr ts"
  shows "(is_space c \<and> tokenize_loop cs (pos + 1) = Inr ts) \<or>
         (\<exists>t cs' pos' ts'. ts = t # ts' \<and> tokenize_loop cs' pos' = Inr ts' \<and>
            length cs' \<le> length cs \<and> tok_type t \<noteq> EOF \<and>
            (tok_type t = OPERATOR \<longrightarrow> isValidOperator (tok_value t)) \<and>
            token_char c \<and> set cs \<subseteq> {x. token_char x} \<union> set cs')"
proof (cases "is_space c")
  case True
  with assms show ?thesis by simp
next
  case sp: False
  have sub: "set cs \<subseteq> {x. token_char x} \<union> set (dropWhile P cs)"
    if "\<And>x. P x \<Longrightarrow> token_char x" for P
    using run_split [of cs P] that by auto
  show ?thesis
  proof (cases "is_upper_or_underscore c")
    case True
    with sp assms obtain ts' where
      "tokenize_loop (dropWhile is_upper_or_underscore cs)
         (pos + length (c # takeWhile is_upper_or_underscore cs)) = Inr ts'"
      "ts = \<lparr>tok_type = VAR, tok_value = c # takeWhile is_upper_or_underscore cs,
              tok_position = pos\<rparr> # ts'"
      by (auto simp: Let_def split: sum.splits)
    moreover have "set cs \<subseteq> {x. token_char x} \<union> set (dropWhile is_upper_or_underscore cs)"
      by (rule sub) (simp add: token_char_def)
    ultimately show ?thesis
      using True by (intro disjI2 exI conjI) (auto simp: length_dropWhile_le token_char_def)
  next
    case up: False
    show ?thesis
    proof (cases "isValidOperator [c]")
      case True
      with sp up assms obtain ts' where
        "tokenize_loop cs (pos + 1) = Inr ts'"
        "ts = \<lparr>tok_type = OPERATOR, tok_value = [c], tok_position = pos\<rparr> # ts'"
        by (auto split: sum.splits)
      then show ?thesis
        using True by (intro disjI2 exI conjI) (auto simp: token_char_def)
    next
      case op: False
      show ?thesis
      proof (cases "is_digit c")
        case True
        with sp up op assms obtain ts' where
          "tokenize_loop (dropWhile is_digit cs) (pos + length (c # takeWhile is_digit cs)) = Inr ts'"
          "ts = \<lparr>tok_type = NUMBER, tok_value = c # takeWhile is_digit cs,
                  tok_position = pos\<rparr> # ts'"
          by (auto simp: Let_def split: sum.splits)
        moreover have "set cs \<subseteq> {x. token_char x} \<union> set (dropWhile is_digit cs)"
          by (rule sub) (simp add: token_char_def)
        ultimately show ?thesis
          using True by (intro disjI2 exI conjI) (auto simp: length_dropWhile_le token_char_def)
      next
        case dg: False
        show ?thesis
        proof (cases "is_lower c")
          case True
          with sp up op dg assms obtain ts' where
            "tokenize_loop (dropWhile is_lower cs) (pos + length (c # takeWhile is_lower cs)) = Inr ts'"
            "ts = \<lparr>tok_type = UNIT, tok_value = c # takeWhile is_lower cs,
                    tok_position = pos\<rparr> # ts'"
            by (auto simp: Let_def split: sum.splits)
          moreover have "set cs \<subseteq> {x. token_char x} \<union> set (dropWhile is_lower cs)"
            by (rule sub) (simp add: token_char_def)
          ultimately show ?thesis
            using True by (intro disjI2 exI conjI) (auto simp: length_dropWhile_le token_char_def)
        next
          case False
          with sp up op dg assms show ?thesis by simp
        qed
      qed
    qed
  qed
qed

lemma tokenize_loop_tokens:
  "tokenize_loop cs pos = Inr ts \<Longrightarrow>
     ends_with_EOF ts \<and>
     (\<forall>t\<in>set ts. tok_type t = OPERATOR \<longrightarrow> isValidOperator (tok_value t)) \<and>
     (\<forall>c\<in>set cs. token_char c)"
proof (induction "length cs" arbitrary: cs pos ts rule: less_induct)
  case less
  show ?case
  proof (cases cs)
    case Nil
    with less.prems have "ts = [\<lparr>tok_type = EOF, tok_value = [], tok_position = pos\<rparr>]"
      by simp
    then have "ends_with_EOF ts" unfolding ends_with_EOF_def by simp
    with Nil less.prems show ?thesis by auto
  next
    case (Cons c cs0)
    from tokenize_loop_Cons [OF less.prems [unfolded Cons]]
    show ?thesis
    proof (elim disjE conjE exE)
      assume sp: "is_space c" and r: "tokenize_loop cs0 (pos + 1) = Inr ts"
      have "length cs0 < length cs" by (simp add: Cons)
      from less.hyps [OF this r] sp show ?thesis
        by (auto simp: Cons token_char_def)
    next
      fix t cs' pos' ts'
      assume ts: "ts = t # ts'" and r: "tokenize_loop cs' pos' = Inr ts'"
        and len: "length cs' \<le> length cs0" and t: "tok_type t \<noteq> EOF"
        "tok_type t = OPERATOR \<longrightarrow> isValidOperator (tok_value t)"
        and c: "token_char c" and sub: "set cs0 \<subseteq> {x. token_char x} \<union> set cs'"
      have "length cs' < length cs" using len by (simp add: Cons)
      from less.hyps [OF this r] have
        e: "ends_with_EOF ts'"
        and o: "\<forall>t\<in>set ts'. tok_type t = OPERATOR \<longrightarrow> isValidOperator (tok_value t)"
        and ch: "\<forall>c\<in>set cs'. token_char c"
        by blast+
      have "ends_with_EOF ts" unfolding ts using e t(1) by (rule ends_with_EOF_Cons)
      moreover have "\<forall>t\<in>set ts. tok_type t = OPERATOR \<longrightarrow> isValidOperator (tok_value t)"
        using o t(2) by (simp add: ts)
      moreover have "\<forall>c\<in>set cs. token_char c"
        using c ch sub by (auto simp: Cons)
      ultimately show ?thesis by blast
    qed
  qed
qed

lemma set_trim:
  assumes "c \<in> set s" "\<not> is_space c"
  shows "c \<in> set (trim s)"
proof -
  have keep: "c \<in> set xs \<Longrightarrow> c \<in> set (dropWhile is_space xs)" for xs
    using assms(2) takeWhile_dropWhile_id [of is_space xs] set_takeWhileD [of c is_space xs]
    by (metis Un_iff set_append)
  show ?thesis
    unfolding trim_def using assms(1) by (simp add: keep)
qed

lemma tokenize_bad_character:
  assumes "c \<in> set e" "\<not> token_char c"
  shows "\<exists>msg. tokenize e = Inl msg"
proof (cases "tokenize e")
  case (Inl msg)
  then show ?thesis by blast
next
  case (Inr ts)
  have "\<not> is_space c" using assms(2) by (simp add: token_char_def)
  with assms(1) have "c \<in> set (trim e)" by (rule set_trim)
  with tokenize_loop_tokens [OF Inr [unfolded tokenize_def]] assms(2) show ?thesis by blast
qed

lemma parse_success:
  assumes "parse host e maxLen mx = Inr ast"
  shows "int (length e) \<le> maxLen \<and>
         (\<exists>ts. tokenize e = Inr ts \<and>
            (\<forall>i<length ts. tok_type (ts ! i) = OPERATOR \<longrightarrow> interval_at host mx ts i)) \<and>
         list_all (\<lambda>a. 0 < a \<and> a \<le> mx) (amounts ast)"
proof -
  from assms have len: "int (length e) \<le> maxLen"
    by (simp add: parse_def split: if_splits)
  with assms obtain ts where ts: "tokenize e = Inr ts" and p: "Parser_parse host mx ts = Inr ast"
    by (auto simp: parse_def split: sum.splits)
  from ts have "ends_with_EOF ts"
    unfolding tokenize_def using tokenize_loop_tokens by blast
  from Parser_parse_success [OF this p] len ts show ?thesis by blast
qed

lemma defect_not_interval:
  assumes "zero_amount ts i \<or> not_numeric ts i \<or> missing_unit ts i \<or> unknown_unit ts i \<or>
           amount_exceeds host mx ts i"
  shows "\<not> interval_at host mx ts i"
proof (cases "drop i ts")
  case Nil
  then show ?thesis by (simp add: interval_at_def)
next
  case (Cons t rest)
  then have "drop (Suc i) ts = rest"
    by (metis drop_Suc list.sel(3) tl_drop)
  with assms Cons show ?thesis
    by (auto simp: interval_at_def zero_amount_def not_numeric_def missing_unit_def
          unknown_unit_def amount_exceeds_def parseInt_amount_def
          split: list.splits option.splits if_splits)
qed

lemma parse_defect_fails:
  assumes "(\<exists>c\<in>set e. \<not> token_char c) \<or>
     (\<exists>ts i. tokenize e = Inr ts \<and> i < length ts \<and> tok_type (ts ! i) = OPERATOR \<and>
        (zero_amount ts i \<or> not_numeric ts i \<or> missing_unit ts i \<or> unknown_unit ts i \<or>
         amount_exceeds host mx ts i))"
  shows "\<exists>err. parse host e maxLen mx = Inl err \<and>
           pe_code err = (if int (length e) \<le> maxLen then PARSE_ERROR else EXPRESSION_TOO_LONG)"
proof -
  have fails: "\<exists>err. parse host e maxLen mx = Inl err"
  proof (cases "parse host e maxLen mx")
    case (Inl err)
    then show ?thesis by blast
  next
    case (Inr ast)
    from parse_success [OF Inr] obtain ts where
      ts: "tokenize e = Inr ts"
      and good: "\<forall>i<length ts. tok_type (ts ! i) = OPERATOR \<longrightarrow> interval_at host mx ts i"
      by blast
    from assms show ?thesis
    proof
      assume "\<exists>c\<in>set e. \<not> token_char c"
      then obtain msg where "tokenize e = Inl msg" using tokenize_bad_character by blast
      with ts show ?thesis by simp
    next
      assume "\<exists>ts i. tokenize e = Inr ts \<and> i < length ts \<and> tok_type (ts ! i) = OPERATOR \<and>
        (zero_amount ts i \<or> not_numeric ts i \<or> missing_unit ts i \<or> unknown_unit ts i \<or>
         amount_exceeds host mx ts i)"
      then obtain i where "i < length ts" "tok_type (ts ! i) = OPERATOR"
        "zero_amount ts i \<or> not_numeric ts i \<or> missing_unit ts i \<or> unknown_unit ts i \<or>
         amount_exceeds host mx ts i"
        using ts by auto
      with good defect_not_interval [of ts i host mx] show ?thesis by blast
    qed
  qed
  then obtain err where err: "parse host e maxLen mx = Inl err" by blast
  from parse_error_code [OF err] have
    "pe_code err = (if int (length e) \<le> maxLen then PARSE_ERROR else EXPRESSION_TOO_LONG)"
    by auto
  with err show ?thesis by blast
qed

section \<open>parse\<close>




text \<open>
  C5, as amended. An expression with a character the tokenizer does not accept (so an
  operator other than \<open>+\<close> and \<open>-\<close>), or with an operator token followed by an amount of
  zero, by no number (a negative-looking amount, a non-numeric interval), by a number
  without a unit, or by a unit of an unknown spelling, fails to parse: with
  \<open>PARSE_ERROR\<close> when its length is within the maximum, with \<open>EXPRESSION_TOO_LONG\<close> beyond. And
  the amounts of a parsed expression are all positive.
\<close>

theorem parse_rejects_bad_intervals:
  "(((\<exists>c\<in>set e. \<not> token_char c) \<or>
     (\<exists>ts i. tokenize e = Inr ts \<and> i < length ts \<and> tok_type (ts ! i) = OPERATOR \<and>
        (zero_amount ts i \<or> not_numeric ts i \<or> missing_unit ts i \<or> unknown_unit ts i)))
    \<longrightarrow> (\<exists>err. parse host e maxLen mx = Inl err \<and>
           pe_code err = (if int (length e) \<le> maxLen then PARSE_ERROR else EXPRESSION_TOO_LONG)))
   \<and> (\<forall>ast. parse host e maxLen mx = Inr ast \<longrightarrow> list_all (\<lambda>a. 0 < a) (amounts ast))"
proof (intro conjI impI allI)
  assume "(\<exists>c\<in>set e. \<not> token_char c) \<or>
     (\<exists>ts i. tokenize e = Inr ts \<and> i < length ts \<and> tok_type (ts ! i) = OPERATOR \<and>
        (zero_amount ts i \<or> not_numeric ts i \<or> missing_unit ts i \<or> unknown_unit ts i))"
  then have "(\<exists>c\<in>set e. \<not> token_char c) \<or>
     (\<exists>ts i. tokenize e = Inr ts \<and> i < length ts \<and> tok_type (ts ! i) = OPERATOR \<and>
        (zero_amount ts i \<or> not_numeric ts i \<or> missing_unit ts i \<or> unknown_unit ts i \<or>
         amount_exceeds host mx ts i))"
    by blast
  then show "\<exists>err. parse host e maxLen mx = Inl err \<and>
      pe_code err = (if int (length e) \<le> maxLen then PARSE_ERROR else EXPRESSION_TOO_LONG)"
    by (rule parse_defect_fails)
next
  fix ast assume "parse host e maxLen mx = Inr ast"
  from parse_success [OF this] have "list_all (\<lambda>a. 0 < a \<and> a \<le> mx) (amounts ast)" by blast
  then show "list_all (\<lambda>a. 0 < a) (amounts ast)"
    by (simp add: list_all_iff)
qed

lemma tokenize_zero_days:
  "tokenize ''MY_DATE + 0 days'' =
     Inr [\<lparr>tok_type = VAR, tok_value = ''MY_DATE'', tok_position = 0\<rparr>,
          \<lparr>tok_type = OPERATOR, tok_value = ''+'', tok_position = 8\<rparr>,
          \<lparr>tok_type = NUMBER, tok_value = ''0'', tok_position = 10\<rparr>,
          \<lparr>tok_type = UNIT, tok_value = ''days'', tok_position = 12\<rparr>,
          \<lparr>tok_type = EOF, tok_value = [], tok_position = 16\<rparr>]"
  by code_simp

lemma zero_amount_zero_days:
  "zero_amount
     [\<lparr>tok_type = VAR, tok_value = ''MY_DATE'', tok_position = 0\<rparr>,
      \<lparr>tok_type = OPERATOR, tok_value = ''+'', tok_position = 8\<rparr>,
      \<lparr>tok_type = NUMBER, tok_value = ''0'', tok_position = 10\<rparr>,
      \<lparr>tok_type = UNIT, tok_value = ''days'', tok_position = 12\<rparr>,
      \<lparr>tok_type = EOF, tok_value = [], tok_position = 16\<rparr>] 1"
  by code_simp

lemma parse_zero_days:
  "parse example_host ''MY_DATE + 0 days'' 200 10000 =
     Inl \<lparr>pe_code = PARSE_ERROR, pe_message = Msg_not_positive, pe_token = ''0'',
          pe_position = Some 10\<rparr>"
  by code_simp

lemma parse_one_day:
  "parse example_host ''MY_DATE + 1 day'' 200 10000 =
     Inr (DateArithmetic (VarRef ''MY_DATE'') Plus 1 U_day)"
  by code_simp

theorem parse_rejects_bad_intervals_witness:
  "tokenize ''MY_DATE + 0 days'' =
     Inr [\<lparr>tok_type = VAR, tok_value = ''MY_DATE'', tok_position = 0\<rparr>,
          \<lparr>tok_type = OPERATOR, tok_value = ''+'', tok_position = 8\<rparr>,
          \<lparr>tok_type = NUMBER, tok_value = ''0'', tok_position = 10\<rparr>,
          \<lparr>tok_type = UNIT, tok_value = ''days'', tok_position = 12\<rparr>,
          \<lparr>tok_type = EOF, tok_value = [], tok_position = 16\<rparr>] \<and>
   (\<exists>err. parse example_host ''MY_DATE + 0 days'' 200 10000 = Inl err \<and>
          pe_code err = PARSE_ERROR) \<and>
   parse example_host ''MY_DATE + 1 day'' 200 10000 =
     Inr (DateArithmetic (VarRef ''MY_DATE'') Plus 1 U_day) \<and>
   list_all (\<lambda>a. 0 < a) (amounts (DateArithmetic (VarRef ''MY_DATE'') Plus 1 U_day))"
proof -
  let ?ts = "[\<lparr>tok_type = VAR, tok_value = ''MY_DATE'', tok_position = 0\<rparr>,
      \<lparr>tok_type = OPERATOR, tok_value = ''+'', tok_position = 8\<rparr>,
      \<lparr>tok_type = NUMBER, tok_value = ''0'', tok_position = 10\<rparr>,
      \<lparr>tok_type = UNIT, tok_value = ''days'', tok_position = 12\<rparr>,
      \<lparr>tok_type = EOF, tok_value = [], tok_position = 16\<rparr>]"
  have "tokenize ''MY_DATE + 0 days'' = Inr ?ts \<and> 1 < length ?ts \<and>
        tok_type (?ts ! 1) = OPERATOR \<and>
        (zero_amount ?ts 1 \<or> not_numeric ?ts 1 \<or> missing_unit ?ts 1 \<or> unknown_unit ?ts 1)"
    using tokenize_zero_days zero_amount_zero_days by simp
  then have defect: "(\<exists>c\<in>set ''MY_DATE + 0 days''. \<not> token_char c) \<or>
     (\<exists>ts i. tokenize ''MY_DATE + 0 days'' = Inr ts \<and> i < length ts \<and>
        tok_type (ts ! i) = OPERATOR \<and>
        (zero_amount ts i \<or> not_numeric ts i \<or> missing_unit ts i \<or> unknown_unit ts i))"
    by blast
  have len: "int (length ''MY_DATE + 0 days'') \<le> 200" by simp
  have "\<exists>err. parse example_host ''MY_DATE + 0 days'' 200 10000 = Inl err \<and>
          pe_code err = PARSE_ERROR"
    using parse_rejects_bad_intervals
            [of "''MY_DATE + 0 days''" example_host 200 10000, THEN conjunct1, THEN mp, OF defect]
          len
    by (simp only: if_True)
  moreover have "list_all (\<lambda>a. 0 < a) (amounts (DateArithmetic (VarRef ''MY_DATE'') Plus 1 U_day))"
    using parse_rejects_bad_intervals
            [of "''MY_DATE + 1 day''" example_host 200 10000, THEN conjunct2, rule_format,
             OF parse_one_day] .
  ultimately show ?thesis using tokenize_zero_days parse_one_day by blast
qed

text \<open>
  C5 as stated fails for an expression longer than the maximum: an amount of zero in
  an expression of 201 characters is reported as \<open>EXPRESSION_TOO_LONG\<close>, with the limits
  of the default options.
\<close>

theorem parse_zero_amount_too_long:
  "tokenize (''MY_DATE + 0 days'' @ replicate 185 (CHR '' '')) =
     Inr [\<lparr>tok_type = VAR, tok_value = ''MY_DATE'', tok_position = 0\<rparr>,
          \<lparr>tok_type = OPERATOR, tok_value = ''+'', tok_position = 8\<rparr>,
          \<lparr>tok_type = NUMBER, tok_value = ''0'', tok_position = 10\<rparr>,
          \<lparr>tok_type = UNIT, tok_value = ''days'', tok_position = 12\<rparr>,
          \<lparr>tok_type = EOF, tok_value = [], tok_position = 16\<rparr>] \<and>
   parse example_host (''MY_DATE + 0 days'' @ replicate 185 (CHR '' ''))
       default_maxExpressionLength default_maxIntervalAmount =
     Inl \<lparr>pe_code = EXPRESSION_TOO_LONG, pe_message = Msg_too_long 200,
          pe_token = ''MY_DATE + 0 days'' @ replicate 185 (CHR '' ''), pe_position = None\<rparr>"
  by code_simp







section \<open>The tokens of a text\<close>

lemma match_token_Some:
  assumes "match_token s = Some (m, e, rest)"
  shows "s = m @ rest" "m = ''{{'' @ e @ ''}}''" "e \<noteq> []" "CHR ''}'' \<notin> set e"
proof -
  let ?P = "\<lambda>c. c \<noteq> CHR ''}''"
  let ?after = "dropWhile ?P (drop 2 s)"
  from assms have two: "take 2 s = ''{{''" and e: "e = takeWhile ?P (drop 2 s)"
    and ne: "e \<noteq> []" and close: "take 2 ?after = ''}}''" and rest: "rest = drop 2 ?after"
    and m: "m = ''{{'' @ e @ ''}}''"
    by (auto simp: match_token_def Let_def split: if_splits)
  show "m = ''{{'' @ e @ ''}}''" by (rule m)
  show "e \<noteq> []" by (rule ne)
  show "CHR ''}'' \<notin> set e"
    unfolding e using set_takeWhileD [of "CHR ''}''" ?P "drop 2 s"] by blast
  have "s = take 2 s @ drop 2 s" by simp
  also have "drop 2 s = e @ ?after" unfolding e by simp
  also have "?after = take 2 ?after @ drop 2 ?after" by simp
  finally show "s = m @ rest" unfolding two close m rest by simp
qed

lemma match_token_not_brace:
  assumes "c \<noteq> CHR ''{''"
  shows "match_token (c # cs) = None"
  using assms by (simp add: match_token_def numeral_2_eq_2)


lemma segment_text_simps [simp]:
  "segment_text (Literal c) = [c]" "segment_text (Occurrence m e) = m"
  by (simp_all add: segment_text_def)


lemma segments_no_brace:
  assumes "CHR ''{'' \<notin> set pre"
  shows "segments pre = map Literal pre"
  using assms
proof (induction pre)
  case Nil
  then show ?case by (simp add: segments.simps)
next
  case (Cons c pre)
  then have "match_token (c # pre) = None"
    by (intro match_token_not_brace) auto
  with Cons show ?case by (simp add: segments.simps)
qed


lemma segments_text: "concat (map segment_text (segments s)) = s"
proof (induction s rule: segments.induct)
  case 1
  then show ?case by (simp add: segments.simps)
next
  case (2 c cs)
  show ?case
  proof (cases "match_token (c # cs)")
    case None
    with 2 show ?thesis by (simp add: segments.simps)
  next
    case (Some r)
    then obtain m e rest where r: "match_token (c # cs) = Some (m, e, rest)"
      by (cases r) auto
    have "segments (c # cs) = Occurrence m e # segments rest"
      using r by (simp add: segments.simps)
    then have "concat (map segment_text (segments (c # cs))) = m @ rest"
      using "2.IH"(2) [OF r refl refl] by simp
    then show ?thesis using match_token_Some(1) [OF r] by simp
  qed
qed


lemma extractExpressions_occurrences: "extractExpressions s = occurrences s"
proof (induction s rule: segments.induct)
  case 1
  then show ?case by (simp add: occurrences_def segments.simps)
next
  case (2 c cs)
  show ?case
  proof (cases "match_token (c # cs)")
    case None
    with 2 show ?thesis by (simp add: occurrences_def segments.simps)
  next
    case (Some r)
    then obtain m e rest where r: "match_token (c # cs) = Some (m, e, rest)"
      by (cases r) auto
    from "2.IH"(2) [OF r refl refl] r show ?thesis
      by (simp add: occurrences_def segments.simps)
  qed
qed

lemma replace_tokens_segments:
  "replace_tokens f s =
     (concat (map (\<lambda>seg. case seg of Literal c \<Rightarrow> [c] | Occurrence m e \<Rightarrow> fst (f m e))
                (segments s)),
      concat (map (\<lambda>seg. case seg of Literal c \<Rightarrow> [] | Occurrence m e \<Rightarrow> snd (f m e))
                (segments s)))"
proof (induction s rule: segments.induct)
  case 1
  then show ?case by (simp add: segments.simps)
next
  case (2 c cs)
  show ?case
  proof (cases "match_token (c # cs)")
    case None
    with 2 show ?thesis by (simp add: split_beta segments.simps)
  next
    case (Some r)
    then obtain m e rest where r: "match_token (c # cs) = Some (m, e, rest)"
      by (cases r) auto
    from "2.IH"(2) [OF r refl refl] r show ?thesis
      by (simp add: split_beta segments.simps)
  qed
qed

lemma processText_segments:
  "processText host options txt ctx =
     (concat (map (\<lambda>seg. fst (process_segment host options ctx seg)) (segments txt)),
      concat (map (\<lambda>seg. snd (process_segment host options ctx seg)) (segments txt)))"
proof -
  have a: "(\<lambda>seg. case seg of Literal c \<Rightarrow> [c]
              | Occurrence m e \<Rightarrow> fst (processText_callback host options ctx m e)) =
           (\<lambda>seg. fst (process_segment host options ctx seg))"
    by (rule ext) (simp add: process_segment_def split: Segment.splits)
  have b: "(\<lambda>seg. case seg of Literal c \<Rightarrow> []
              | Occurrence m e \<Rightarrow> snd (processText_callback host options ctx m e)) =
           (\<lambda>seg. snd (process_segment host options ctx seg))"
    by (rule ext) (simp add: process_segment_def split: Segment.splits)
  show ?thesis
    unfolding processText_def replace_tokens_segments a b ..
qed

lemma no_occurrences:
  assumes "occurrences txt = []"
  shows "segments txt = map Literal txt"
proof -
  have lit: "\<forall>seg\<in>set (segments txt). \<exists>c. seg = Literal c"
  proof
    fix seg assume s: "seg \<in> set (segments txt)"
    show "\<exists>c. seg = Literal c"
    proof (cases seg)
      case (Literal c)
      then show ?thesis by blast
    next
      case (Occurrence m e)
      with s assms show ?thesis by (auto simp: occurrences_def)
    qed
  qed
  have "xs = map Literal (concat (map segment_text xs))"
    if "\<forall>seg\<in>set xs. \<exists>c. seg = Literal c" for xs
    using that by (induction xs) auto
  from this [OF lit] show ?thesis by (simp add: segments_text)
qed





section \<open>processText\<close>

lemma callback_parse_error:
  assumes "parse host (trim e) (maxExpressionLength options) (maxIntervalAmount options) = Inl perr"
  shows "process_segment host options ctx (Occurrence m e) =
           (m, [\<lparr>ee_code = pe_code perr, ee_message = pe_message perr,
                  ee_token = Token_text m\<rparr>])"
  using assms by (simp add: process_segment_def processText_callback_def)

lemma callback_evaluation_error:
  assumes "parse host (trim e) (maxExpressionLength options) (maxIntervalAmount options) = Inr ast"
    and "evaluate host ast ctx (systemVariables options) = Inl err"
  shows "process_segment host options ctx (Occurrence m e) = (m, [err])"
  using assms by (simp add: process_segment_def processText_callback_def)

lemma callback_value:
  assumes "parse host (trim e) (maxExpressionLength options) (maxIntervalAmount options) = Inr ast"
    and "evaluate host ast ctx (systemVariables options) = Inr v"
  shows "process_segment host options ctx (Occurrence m e) = (v, [])"
  using assms by (simp add: process_segment_def processText_callback_def)

lemma processText_no_tokens:
  assumes "extractExpressions s = []"
  shows "processText host options s ctx = (s, [])"
proof -
  have seg: "segments s = map Literal s"
    using assms by (intro no_occurrences) (simp add: extractExpressions_occurrences)
  have "concat (map (\<lambda>seg. fst (process_segment host options ctx seg)) (map Literal s)) = s"
    by (induction s) (simp_all add: process_segment_def)
  moreover have "concat (map (\<lambda>seg. snd (process_segment host options ctx seg)) (map Literal s))
      = []"
    by (induction s) (simp_all add: process_segment_def)
  ultimately show ?thesis
    unfolding processText_segments seg by simp
qed

lemma segments_VALID_INVALID:
  "segments ''{{VALID}} and {{INVALID}}'' =
     [Occurrence ''{{VALID}}'' ''VALID'', Literal CHR '' '', Literal CHR ''a'',
      Literal CHR ''n'', Literal CHR ''d'', Literal CHR '' '',
      Occurrence ''{{INVALID}}'' ''INVALID'']"
  by code_simp

lemma parse_VALID:
  "parse host (trim ''VALID'') (maxExpressionLength default_options)
     (maxIntervalAmount default_options) = Inr (VarRef ''VALID'')"
  by code_simp

lemma parse_INVALID:
  "parse host (trim ''INVALID'') (maxExpressionLength default_options)
     (maxIntervalAmount default_options) = Inr (VarRef ''INVALID'')"
  by code_simp

lemma evaluate_unresolved:
  assumes "resolve host ctx sys name = None"
  shows "evaluate host (VarRef name) ctx sys =
           Inl \<lparr>ee_code = UNDEFINED_VARIABLE, ee_message = Msg_not_defined name,
                ee_token = Token_text name\<rparr>"
  using assms by (simp add: evaluate_def evaluation_error_def)

lemma processText_VALID_INVALID:
  assumes v: "evaluate host (VarRef ''VALID'') ctx Map.empty = Inr v"
    and i: "resolve host ctx Map.empty ''INVALID'' = None"
  shows "processText host default_options ''{{VALID}} and {{INVALID}}'' ctx =
           (v @ '' and {{INVALID}}'',
            [\<lparr>ee_code = UNDEFINED_VARIABLE, ee_message = Msg_not_defined ''INVALID'',
              ee_token = Token_text ''INVALID''\<rparr>])"
proof -
  have sys: "systemVariables default_options = Map.empty"
    by (simp add: default_options_def)
  have a: "process_segment host default_options ctx (Occurrence ''{{VALID}}'' ''VALID'') = (v, [])"
    using parse_VALID v [folded sys] by (rule callback_value)
  have b: "process_segment host default_options ctx (Occurrence ''{{INVALID}}'' ''INVALID'') =
      (''{{INVALID}}'',
       [\<lparr>ee_code = UNDEFINED_VARIABLE, ee_message = Msg_not_defined ''INVALID'',
         ee_token = Token_text ''INVALID''\<rparr>])"
    using parse_INVALID evaluate_unresolved [OF i, folded sys] by (rule callback_evaluation_error)
  have l: "process_segment host default_options ctx (Literal c) = ([c], [])" for c
    by (simp add: process_segment_def)
  show ?thesis
    unfolding processText_segments segments_VALID_INVALID by (simp add: a b l)
qed

text \<open>
  C3. \<open>processText\<close> processes the segments of the text one by one, and puts the texts
  and the errors together in their order. For an occurrence whose expression fails to
  parse, the text is the occurrence itself and there is one error, with the code and the
  message of the parse error and the occurrence as its token; when the evaluation
  fails, the text is the occurrence itself and there is one error, the evaluation error;
  when both succeed, the text is the value and there is no error. So for
  \<open>{{VALID}} and {{INVALID}}\<close>, when \<open>VALID\<close> evaluates to a value and \<open>INVALID\<close> does not
  resolve, the text is the value followed by \<open> and {{INVALID}}\<close> and there is one error;
  and a text without tokens comes back as it is, with no error.
\<close>

theorem processText_keeps_failed_tokens:
  "processText host options s ctx =
     (concat (map (\<lambda>seg. fst (process_segment host options ctx seg)) (segments s)),
      concat (map (\<lambda>seg. snd (process_segment host options ctx seg)) (segments s))) \<and>
   (\<forall>c. process_segment host options ctx (Literal c) = ([c], [])) \<and>
   (\<forall>m e perr.
      parse host (trim e) (maxExpressionLength options) (maxIntervalAmount options) = Inl perr \<longrightarrow>
      process_segment host options ctx (Occurrence m e) =
        (m, [\<lparr>ee_code = pe_code perr, ee_message = pe_message perr, ee_token = Token_text m\<rparr>])) \<and>
   (\<forall>m e ast err.
      parse host (trim e) (maxExpressionLength options) (maxIntervalAmount options) = Inr ast \<and>
      evaluate host ast ctx (systemVariables options) = Inl err \<longrightarrow>
      process_segment host options ctx (Occurrence m e) = (m, [err])) \<and>
   (\<forall>m e ast v.
      parse host (trim e) (maxExpressionLength options) (maxIntervalAmount options) = Inr ast \<and>
      evaluate host ast ctx (systemVariables options) = Inr v \<longrightarrow>
      process_segment host options ctx (Occurrence m e) = (v, [])) \<and>
   (\<forall>v. evaluate host (VarRef ''VALID'') ctx Map.empty = Inr v \<and>
        resolve host ctx Map.empty ''INVALID'' = None \<longrightarrow>
        processText host default_options ''{{VALID}} and {{INVALID}}'' ctx =
          (v @ '' and {{INVALID}}'',
           [\<lparr>ee_code = UNDEFINED_VARIABLE, ee_message = Msg_not_defined ''INVALID'',
             ee_token = Token_text ''INVALID''\<rparr>])) \<and>
   (extractExpressions s = [] \<longrightarrow> processText host options s ctx = (s, []))"
proof (intro conjI allI impI)
  show "processText host options s ctx =
     (concat (map (\<lambda>seg. fst (process_segment host options ctx seg)) (segments s)),
      concat (map (\<lambda>seg. snd (process_segment host options ctx seg)) (segments s)))"
    by (rule processText_segments)
next
  fix c show "process_segment host options ctx (Literal c) = ([c], [])"
    by (simp add: process_segment_def)
next
  fix m e perr
  assume "parse host (trim e) (maxExpressionLength options) (maxIntervalAmount options) = Inl perr"
  then show "process_segment host options ctx (Occurrence m e) =
        (m, [\<lparr>ee_code = pe_code perr, ee_message = pe_message perr, ee_token = Token_text m\<rparr>])"
    by (rule callback_parse_error)
next
  fix m e ast err
  assume "parse host (trim e) (maxExpressionLength options) (maxIntervalAmount options) = Inr ast \<and>
      evaluate host ast ctx (systemVariables options) = Inl err"
  then show "process_segment host options ctx (Occurrence m e) = (m, [err])"
    by (elim conjE) (rule callback_evaluation_error)
next
  fix m e ast v
  assume "parse host (trim e) (maxExpressionLength options) (maxIntervalAmount options) = Inr ast \<and>
      evaluate host ast ctx (systemVariables options) = Inr v"
  then show "process_segment host options ctx (Occurrence m e) = (v, [])"
    by (elim conjE) (rule callback_value)
next
  fix v
  assume "evaluate host (VarRef ''VALID'') ctx Map.empty = Inr v \<and>
        resolve host ctx Map.empty ''INVALID'' = None"
  then show "processText host default_options ''{{VALID}} and {{INVALID}}'' ctx =
          (v @ '' and {{INVALID}}'',
           [\<lparr>ee_code = UNDEFINED_VARIABLE, ee_message = Msg_not_defined ''INVALID'',
             ee_token = Token_text ''INVALID''\<rparr>])"
    by (elim conjE) (rule processText_VALID_INVALID)
next
  assume "extractExpressions s = []"
  then show "processText host options s ctx = (s, [])"
    by (rule processText_no_tokens)
qed

lemma evaluate_VALID_example:
  "evaluate example_host (VarRef ''VALID'') [''VALID'' \<mapsto> ''2026-02-16''] Map.empty =
     Inr ''2026-02-16''"
  by code_simp

lemma resolve_INVALID_example:
  "resolve example_host [''VALID'' \<mapsto> ''2026-02-16''] Map.empty ''INVALID'' = None"
  by code_simp

lemma parse_lower_case_example:
  "parse example_host (trim '' my_date '') (maxExpressionLength default_options)
     (maxIntervalAmount default_options) =
     Inl \<lparr>pe_code = PARSE_ERROR, pe_message = Msg_expected_variable, pe_token = ''my'',
          pe_position = Some 0\<rparr>"
  by code_simp

lemma extractExpressions_plain_example: "extractExpressions ''no tokens { here }'' = []"
  by code_simp

theorem processText_keeps_failed_tokens_witness:
  "processText example_host default_options ''{{VALID}} and {{INVALID}}''
       [''VALID'' \<mapsto> ''2026-02-16''] =
     (''2026-02-16 and {{INVALID}}'',
      [\<lparr>ee_code = UNDEFINED_VARIABLE, ee_message = Msg_not_defined ''INVALID'',
        ee_token = Token_text ''INVALID''\<rparr>]) \<and>
   process_segment example_host default_options Map.empty (Occurrence ''{{ my_date }}'' '' my_date '') =
     (''{{ my_date }}'',
      [\<lparr>ee_code = PARSE_ERROR, ee_message = Msg_expected_variable,
        ee_token = Token_text ''{{ my_date }}''\<rparr>]) \<and>
   extractExpressions ''no tokens { here }'' = [] \<and>
   processText example_host default_options ''no tokens { here }'' Map.empty =
     (''no tokens { here }'', [])"
proof -
  have h: "evaluate example_host (VarRef ''VALID'') [''VALID'' \<mapsto> ''2026-02-16''] Map.empty =
        Inr ''2026-02-16'' \<and>
      resolve example_host [''VALID'' \<mapsto> ''2026-02-16''] Map.empty ''INVALID'' = None"
    using evaluate_VALID_example resolve_INVALID_example by simp
  have a: "processText example_host default_options ''{{VALID}} and {{INVALID}}''
       [''VALID'' \<mapsto> ''2026-02-16''] =
     (''2026-02-16 and {{INVALID}}'',
      [\<lparr>ee_code = UNDEFINED_VARIABLE, ee_message = Msg_not_defined ''INVALID'',
        ee_token = Token_text ''INVALID''\<rparr>])"
    using processText_keeps_failed_tokens
            [of example_host default_options "[]" "[''VALID'' \<mapsto> ''2026-02-16'']",
             THEN conjunct2, THEN conjunct2, THEN conjunct2, THEN conjunct2, THEN conjunct2,
             THEN conjunct1, rule_format, OF h]
    by simp
  have b: "process_segment example_host default_options Map.empty
             (Occurrence ''{{ my_date }}'' '' my_date '') =
     (''{{ my_date }}'',
      [\<lparr>ee_code = PARSE_ERROR, ee_message = Msg_expected_variable,
        ee_token = Token_text ''{{ my_date }}''\<rparr>])"
    using processText_keeps_failed_tokens
            [of example_host default_options "[]" Map.empty,
             THEN conjunct2, THEN conjunct2, THEN conjunct1, rule_format,
             OF parse_lower_case_example, of "''{{ my_date }}''"]
    by simp
  have c: "processText example_host default_options ''no tokens { here }'' Map.empty =
     (''no tokens { here }'', [])"
    using processText_keeps_failed_tokens
            [of example_host default_options "''no tokens { here }''" Map.empty,
             THEN conjunct2, THEN conjunct2, THEN conjunct2, THEN conjunct2, THEN conjunct2,
             THEN conjunct2, THEN mp, OF extractExpressions_plain_example] .
  show ?thesis using a b c extractExpressions_plain_example by blast
qed

end
